theory Spec2Isabelle
  imports Complex_Main "HOL-Library.AList" "HOL-Library.Multiset" "HOL-Library.Log_Nat"
begin

section \<open>Python values and the exceptions the analysis can raise\<close>

text \<open>
  The explorer answers in JSON. A transaction is a dictionary of which the analysis reads
  the keys \<^verbatim>\<open>from\<close>, \<^verbatim>\<open>to\<close>, \<^verbatim>\<open>value\<close>, \<^verbatim>\<open>timeStamp\<close> and \<^verbatim>\<open>hash\<close>. A field
  is \<open>None\<close> when the key is absent (subscripting raises \<^verbatim>\<open>KeyError\<close>) and otherwise holds
  a JSON scalar: \<^verbatim>\<open>null\<close>, a string or an integer.
\<close>

datatype error =
    KeyError | AttributeError | TypeError | ValueError | OverflowError | ZeroDivisionError
  | HTTPError | EtherscanError | TimestampError

datatype jval = JNull | JStr string | JNum int

record raw_tx =
  tx_from :: "jval option"
  tx_to :: "jval option"
  tx_value :: "jval option"
  tx_timeStamp :: "jval option"
  tx_hash :: "jval option"

definition ebind :: "error + 'a \<Rightarrow> ('a \<Rightarrow> error + 'b) \<Rightarrow> error + 'b" where
  "ebind m f = (case m of Inl e \<Rightarrow> Inl e | Inr x \<Rightarrow> f x)"

text \<open>\<^verbatim>\<open>d[key]\<close>: the value, or \<^verbatim>\<open>KeyError\<close>.\<close>

definition getitem :: "'a option \<Rightarrow> error + 'a" where
  "getitem f = (case f of None \<Rightarrow> Inl KeyError | Some v \<Rightarrow> Inr v)"

text \<open>\<^verbatim>\<open>str.lower()\<close> on ASCII text (addresses are hexadecimal strings).\<close>

definition lower_char :: "char \<Rightarrow> char" where
  "lower_char c = (let n = (of_char c :: nat) in if 65 \<le> n \<and> n \<le> 90 then char_of (n + 32) else c)"

definition lower :: "string \<Rightarrow> string" where
  "lower s = map lower_char s"

text \<open>\<^verbatim>\<open>x.lower()\<close> on a JSON value: only a string has the method.\<close>

fun str_lower :: "jval \<Rightarrow> error + string" where
  "str_lower (JStr s) = Inr (lower s)"
| "str_lower JNull = Inl AttributeError"
| "str_lower (JNum n) = Inl AttributeError"

text \<open>Truth value of a JSON value in a condition.\<close>

fun truthy :: "jval \<Rightarrow> bool" where
  "truthy JNull = False"
| "truthy (JStr s) = (s \<noteq> [])"
| "truthy (JNum n) = (n \<noteq> 0)"

text \<open>
  \<^verbatim>\<open>int(x)\<close>. On a string: surrounding whitespace (the characters 9 to 13 and the space)
  is dropped, one sign is allowed, then decimal digits, single underscores allowed between
  digits; anything else is \<^verbatim>\<open>ValueError\<close>. ASCII characters only.
\<close>

definition is_space :: "char \<Rightarrow> bool" where
  "is_space c = (let n = (of_char c :: nat) in (9 \<le> n \<and> n \<le> 13) \<or> n = 32)"

definition strip :: "string \<Rightarrow> string" where
  "strip s = rev (dropWhile is_space (rev (dropWhile is_space s)))"

definition digit_val :: "char \<Rightarrow> nat option" where
  "digit_val c = (let n = (of_char c :: nat) in if 48 \<le> n \<and> n \<le> 57 then Some (n - 48) else None)"

fun digits :: "nat \<Rightarrow> string \<Rightarrow> nat option" where
  "digits acc [] = Some acc"
| "digits acc [c] = (case digit_val c of None \<Rightarrow> None | Some v \<Rightarrow> Some (10 * acc + v))"
| "digits acc (c # d # ds) =
     (if c = CHR ''_''
      then (case digit_val d of None \<Rightarrow> None | Some v \<Rightarrow> digits (10 * acc + v) ds)
      else (case digit_val c of None \<Rightarrow> None | Some v \<Rightarrow> digits (10 * acc + v) (d # ds)))"

definition unsigned :: "string \<Rightarrow> nat option" where
  "unsigned s = (case s of [] \<Rightarrow> None
     | c # cs \<Rightarrow> (case digit_val c of None \<Rightarrow> None | Some v \<Rightarrow> digits v cs))"

definition int_of_str :: "string \<Rightarrow> error + int" where
  "int_of_str s =
     (case strip s of
        [] \<Rightarrow> Inl ValueError
      | c # cs \<Rightarrow>
          if c = CHR ''-'' then (case unsigned cs of None \<Rightarrow> Inl ValueError | Some n \<Rightarrow> Inr (- int n))
          else if c = CHR ''+'' then (case unsigned cs of None \<Rightarrow> Inl ValueError | Some n \<Rightarrow> Inr (int n))
          else (case unsigned (c # cs) of None \<Rightarrow> Inl ValueError | Some n \<Rightarrow> Inr (int n)))"

fun py_int :: "jval \<Rightarrow> error + int" where
  "py_int (JStr s) = int_of_str s"
| "py_int (JNum n) = Inr n"
| "py_int JNull = Inl TypeError"

section \<open>Pool analyzer: grouping outgoing transfers by recipient\<close>

text \<open>
  The per-recipient entry of \<^verbatim>\<open>analyze_pool\<close> and the detail kept for each retained
  transaction. The dictionary of recipients keeps insertion order, as Python's does: it is
  an association list with distinct keys, read with \<open>map_of\<close>.
\<close>

record tx_detail =
  hash :: jval
  value_wei :: int
  timestamp :: int
  tx_type :: string

record pool_stat =
  count :: int
  total_wei :: int
  transactions :: "tx_detail list"

type_synonym recipients = "(string \<times> pool_stat) list"

datatype tx_kind = Normal | Internal

fun type_name :: "tx_kind \<Rightarrow> string" where
  "type_name Normal = ''normal''"
| "type_name Internal = ''internal''"

text \<open>
  The hash stored: \<^verbatim>\<open>tx["hash"]\<close> in the loop over normal transactions,
  \<^verbatim>\<open>tx.get("hash", "internal")\<close> in the loop over internal ones.
\<close>

fun hash_of :: "tx_kind \<Rightarrow> raw_tx \<Rightarrow> error + jval" where
  "hash_of Normal tx = getitem (tx_hash tx)"
| "hash_of Internal tx = Inr (case tx_hash tx of None \<Rightarrow> JStr ''internal'' | Some h \<Rightarrow> h)"

text \<open>
  One pass of a loop body up to the point where the dictionary is touched: \<open>Inr None\<close>
  when the transaction is skipped, \<open>Inr (Some (to_addr, detail))\<close> when it is retained,
  \<open>Inl e\<close> when evaluating the body raises. The condition short-circuits: the value is
  not parsed when the sender differs from the pool.
\<close>

definition outgoing :: "string \<Rightarrow> tx_kind \<Rightarrow> raw_tx \<Rightarrow> error + (string \<times> tx_detail) option" where
  "outgoing pool_address k tx =
     ebind (getitem (tx_from tx)) (\<lambda>f.
     ebind (str_lower f) (\<lambda>sender.
       if sender \<noteq> pool_address then Inr None
       else
         ebind (getitem (tx_value tx)) (\<lambda>v.
         ebind (py_int v) (\<lambda>amount.
           if \<not> amount > 0 then Inr None
           else
             ebind (getitem (tx_to tx)) (\<lambda>t.
             ebind (if truthy t then str_lower t else Inr ''contract_creation'') (\<lambda>to_addr.
             ebind (py_int v) (\<lambda>value.
             ebind (hash_of k tx) (\<lambda>h.
             ebind (getitem (tx_timeStamp tx)) (\<lambda>ts.
             ebind (py_int ts) (\<lambda>stamp.
               Inr (Some (to_addr,
                 \<lparr>hash = h, value_wei = value, timestamp = stamp, tx_type = type_name k\<rparr>))))))))))))"

text \<open>
  The three updates of \<^verbatim>\<open>recipients[to_addr]\<close>; the \<^verbatim>\<open>defaultdict\<close> supplies a fresh
  entry on first access.
\<close>

definition default_stat :: pool_stat where
  "default_stat = \<lparr>count = 0, total_wei = 0, transactions = []\<rparr>"

definition lookup_default :: "recipients \<Rightarrow> string \<Rightarrow> pool_stat" where
  "lookup_default rs a = (case map_of rs a of None \<Rightarrow> default_stat | Some e \<Rightarrow> e)"

definition add_tx :: "string \<Rightarrow> tx_detail \<Rightarrow> recipients \<Rightarrow> recipients" where
  "add_tx to_addr d rs =
     (let e = lookup_default rs to_addr
      in AList.update to_addr
           (e\<lparr>count := count e + 1,
              total_wei := total_wei e + value_wei d,
              transactions := transactions e @ [d]\<rparr>) rs)"

fun process :: "string \<Rightarrow> tx_kind \<Rightarrow> raw_tx list \<Rightarrow> recipients \<Rightarrow> error + recipients" where
  "process pool_address k [] rs = Inr rs"
| "process pool_address k (tx # txs) rs =
     (case outgoing pool_address k tx of
        Inl e \<Rightarrow> Inl e
      | Inr None \<Rightarrow> process pool_address k txs rs
      | Inr (Some (to_addr, d)) \<Rightarrow> process pool_address k txs (add_tx to_addr d rs))"

text \<open>Lines 330 to 360 of \<^verbatim>\<open>analyze_pool\<close>: normal transactions first, then internal.\<close>

definition aggregate :: "string \<Rightarrow> raw_tx list \<Rightarrow> raw_tx list \<Rightarrow> error + recipients" where
  "aggregate pool_address normal_txs internal_txs =
     ebind (process pool_address Normal normal_txs [])
           (process pool_address Internal internal_txs)"

section \<open>Explorer client\<close>

text \<open>
  A request is the parameter dictionary handed to \<^verbatim>\<open>_make_request\<close>; the network is a
  function from requests to replies (the chain does not change during one run). A reply is
  an HTTP failure (\<^verbatim>\<open>requests.get\<close> or \<^verbatim>\<open>raise_for_status\<close> raising) or a decoded body
  with its \<^verbatim>\<open>status\<close>, \<^verbatim>\<open>message\<close> and \<^verbatim>\<open>result\<close>.
\<close>

datatype request =
    GetBlockNoByTime int string
  | AccountTxs string string int int nat nat string

datatype payload = PList "raw_tx list" | PVal jval

datatype reply = HttpFailure | Reply string string payload

definition make_request :: "(request \<Rightarrow> reply) \<Rightarrow> request \<Rightarrow> error + payload" where
  "make_request http params =
     (case http params of
        HttpFailure \<Rightarrow> Inl HTTPError
      | Reply status message result \<Rightarrow>
          if status \<noteq> ''1'' \<and> message \<noteq> ''No transactions found''
          then Inl EtherscanError else Inr result)"

definition get_block_by_timestamp :: "(request \<Rightarrow> reply) \<Rightarrow> int \<Rightarrow> string \<Rightarrow> error + int" where
  "get_block_by_timestamp http stamp closest =
     ebind (make_request http (GetBlockNoByTime stamp closest)) (\<lambda>result.
       case result of PList xs \<Rightarrow> Inl TypeError | PVal v \<Rightarrow> py_int v)"

text \<open>
  The paging loop shared, word for word, by \<^verbatim>\<open>get_internal_transactions\<close> (action
  \<^verbatim>\<open>txlistinternal\<close>) and \<^verbatim>\<open>get_normal_transactions\<close> (action \<^verbatim>\<open>txlist\<close>). The loop is
  \<^verbatim>\<open>while True\<close>: it returns \<open>None\<close> when it runs forever. Beside the outcome it returns
  the requests it has issued, in order.
\<close>

partial_function (option) fetch_pages ::
  "(request \<Rightarrow> reply) \<Rightarrow> string \<Rightarrow> string \<Rightarrow> int \<Rightarrow> int \<Rightarrow> nat \<Rightarrow> request list \<Rightarrow> raw_tx list
     \<Rightarrow> (request list \<times> (error + raw_tx list)) option" where
  "fetch_pages http action address start_block end_block page issued all_txs =
     (let params = AccountTxs action address start_block end_block page 10000 ''asc''
      in case make_request http params of
           Inl e \<Rightarrow> Some (issued @ [params], Inl e)
         | Inr result \<Rightarrow>
             (case result of
                PVal v \<Rightarrow> Some (issued @ [params], Inr all_txs)
              | PList xs \<Rightarrow>
                  if xs \<noteq> [] then
                    if length xs < 10000 then Some (issued @ [params], Inr (all_txs @ xs))
                    else fetch_pages http action address start_block end_block (page + 1)
                           (issued @ [params]) (all_txs @ xs)
                  else Some (issued @ [params], Inr all_txs)))"

definition get_internal_transactions ::
  "(request \<Rightarrow> reply) \<Rightarrow> string \<Rightarrow> int \<Rightarrow> int \<Rightarrow> (error + raw_tx list) option" where
  "get_internal_transactions http address start_block end_block =
     map_option snd (fetch_pages http ''txlistinternal'' address start_block end_block 1 [] [])"

definition get_normal_transactions ::
  "(request \<Rightarrow> reply) \<Rightarrow> string \<Rightarrow> int \<Rightarrow> int \<Rightarrow> (error + raw_tx list) option" where
  "get_normal_transactions http address start_block end_block =
     map_option snd (fetch_pages http ''txlist'' address start_block end_block 1 [] [])"

definition analyze_pool ::
  "(request \<Rightarrow> reply) \<Rightarrow> string \<Rightarrow> string \<Rightarrow> int \<Rightarrow> int \<Rightarrow> (error + recipients) option" where
  "analyze_pool http pool_address pool_name start_block end_block =
     (let pool_address = lower pool_address
      in case get_internal_transactions http pool_address start_block end_block of
           None \<Rightarrow> None
         | Some (Inl e) \<Rightarrow> Some (Inl e)
         | Some (Inr internal_txs) \<Rightarrow>
             (case get_normal_transactions http pool_address start_block end_block of
                None \<Rightarrow> None
              | Some (Inl e) \<Rightarrow> Some (Inl e)
              | Some (Inr normal_txs) \<Rightarrow> Some (aggregate pool_address normal_txs internal_txs)))"

section \<open>Python floats\<close>

text \<open>
  A Python float is an IEEE 754 binary64 value: a rational on the binary64 grid, an infinity
  or a NaN. Every arithmetic result is the exact result rounded to the nearest grid point,
  ties to the even significand. \<open>ilog2 q\<close> is the binary exponent of a positive rational,
  \<open>rne\<close> rounds to the nearest integer, ties to even, and \<open>round_double\<close> rounds to the
  grid: 53 significant bits, the least exponent that of the subnormals. The sign of zero is
  not represented: the analysis only adds non-negative values and divides by a positive
  constant.
\<close>

definition ilog2 :: "rat \<Rightarrow> int" where
  "ilog2 q = (if 1 \<le> q then bitlen \<lfloor>q\<rfloor> - 1
              else (let k = - bitlen \<lfloor>1 / q\<rfloor> in if 2 powi (k + 1) \<le> q then k + 1 else k))"

definition rne :: "rat \<Rightarrow> int" where
  "rne x = (let f = \<lfloor>x\<rfloor>; r = x - of_int f
            in if r < 1 / 2 then f else if 1 / 2 < r then f + 1 else if even f then f else f + 1)"

definition round_pos :: "rat \<Rightarrow> rat" where
  "round_pos q = (let e = max (ilog2 q - 52) (- 1074) in of_int (rne (q / 2 powi e)) * 2 powi e)"

definition round_double :: "rat \<Rightarrow> rat" where
  "round_double q = (if q = 0 then 0 else if 0 < q then round_pos q else - round_pos (- q))"

datatype pyfloat = Fin rat | PInf | NInf | NaN

text \<open>The least magnitude that no longer fits: a rounded result this large overflows.\<close>

definition overflow_threshold :: rat where
  "overflow_threshold = 2 powi 1024"

text \<open>
  \<^verbatim>\<open>a / b\<close> on two integers: the correctly rounded quotient, \<^verbatim>\<open>OverflowError\<close> when it is
  too large for a float.
\<close>

definition truediv :: "int \<Rightarrow> int \<Rightarrow> error + pyfloat" where
  "truediv a b =
     (if b = 0 then Inl ZeroDivisionError
      else (let r = round_double (of_int a / of_int b)
            in if overflow_threshold \<le> \<bar>r\<bar> then Inl OverflowError else Inr (Fin r)))"

text \<open>\<^verbatim>\<open>x + y\<close> on two floats.\<close>

fun fadd :: "pyfloat \<Rightarrow> pyfloat \<Rightarrow> pyfloat" where
  "fadd (Fin x) (Fin y) =
     (let r = round_double (x + y)
      in if overflow_threshold \<le> r then PInf else if r \<le> - overflow_threshold then NInf else Fin r)"
| "fadd NaN y = NaN"
| "fadd x NaN = NaN"
| "fadd PInf NInf = NaN"
| "fadd NInf PInf = NaN"
| "fadd PInf y = PInf"
| "fadd x PInf = PInf"
| "fadd NInf y = NInf"
| "fadd x NInf = NInf"

text \<open>\<^verbatim>\<open>x < y\<close> on two floats: false as soon as one is a NaN.\<close>

fun fless :: "pyfloat \<Rightarrow> pyfloat \<Rightarrow> bool" where
  "fless (Fin x) (Fin y) = (x < y)"
| "fless NaN y = False"
| "fless x NaN = False"
| "fless x NInf = False"
| "fless NInf y = True"
| "fless PInf y = False"
| "fless x PInf = True"

section \<open>Analysis of the selected pools and cross-pool merge\<close>

record pool_info =
  address :: string
  denomination :: int
  name :: string

definition TORNADO_CASH_POOLS :: "(string \<times> pool_info) list" where
  "TORNADO_CASH_POOLS =
     [(''1_eth'', \<lparr>address = ''0x47CE0C6eD5B0Ce3d3A51fdb1C52DC66a7c3c2936'', denomination = 1, name = ''1 ETH''\<rparr>),
      (''10_eth'', \<lparr>address = ''0x910Cbd523D972eb0a6f4cAe4618aD62622b39DbF'', denomination = 10, name = ''10 ETH''\<rparr>),
      (''100_eth'', \<lparr>address = ''0xA160cdAB225685dA1d56aa342Ad8841c3b53f291'', denomination = 100, name = ''100 ETH''\<rparr>)]"

definition WEI_TO_ETH :: int where
  "WEI_TO_ETH = 10 ^ 18"

text \<open>
  A \<^verbatim>\<open>datetime\<close> is identified with the instant it was built from.
  \<^verbatim>\<open>datetime.fromtimestamp\<close> raises outside the range the platform supports, which depends
  on the platform and its time zone: the range is a parameter.
\<close>

datatype datetime = FromTimestamp int

fun timestamp_of :: "datetime \<Rightarrow> int" where
  "timestamp_of (FromTimestamp t) = t"

definition fromtimestamp :: "(int \<Rightarrow> bool) \<Rightarrow> int \<Rightarrow> error + datetime" where
  "fromtimestamp supported t = (if supported t then Inr (FromTimestamp t) else Inl TimestampError)"

text \<open>\<^verbatim>\<open>min\<close> and \<^verbatim>\<open>max\<close> of a list, \<^verbatim>\<open>ValueError\<close> on the empty list.\<close>

fun py_min :: "int list \<Rightarrow> error + int" where
  "py_min [] = Inl ValueError"
| "py_min (x # xs) = Inr (fold min xs x)"

fun py_max :: "int list \<Rightarrow> error + int" where
  "py_max [] = Inl ValueError"
| "py_max (x # xs) = Inr (fold max xs x)"

text \<open>Lines 373 to 385: the block range of the requested dates.\<close>

definition resolve_blocks ::
  "(request \<Rightarrow> reply) \<Rightarrow> datetime option \<Rightarrow> datetime option \<Rightarrow> error + int \<times> int" where
  "resolve_blocks http start_date end_date =
     ebind (case start_date of
              None \<Rightarrow> Inr 0
            | Some d \<Rightarrow> get_block_by_timestamp http (timestamp_of d) ''after'') (\<lambda>start_block.
     ebind (case end_date of
              None \<Rightarrow> Inr 99999999
            | Some d \<Rightarrow> get_block_by_timestamp http (timestamp_of d) ''before'') (\<lambda>end_block.
       Inr (start_block, end_block)))"

text \<open>
  Lines 388 to 408: one pool after the other. A pool whose analysis raises is recorded
  with the empty dictionary; a key that names no pool is skipped. The result is \<open>None\<close>
  when the analysis of some pool never returns.
\<close>

type_synonym pool_results = "string \<rightharpoonup> recipients"

fun analyze_pools ::
  "(request \<Rightarrow> reply) \<Rightarrow> int \<Rightarrow> int \<Rightarrow> string list \<Rightarrow> pool_results \<Rightarrow> pool_results option" where
  "analyze_pools http start_block end_block [] pool_results = Some pool_results"
| "analyze_pools http start_block end_block (pool_key # keys) pool_results =
     (case map_of TORNADO_CASH_POOLS pool_key of
        None \<Rightarrow> analyze_pools http start_block end_block keys pool_results
      | Some pool_info \<Rightarrow>
          (case analyze_pool http (address pool_info) (name pool_info) start_block end_block of
             None \<Rightarrow> None
           | Some (Inr results) \<Rightarrow>
               analyze_pools http start_block end_block keys (pool_results(pool_key \<mapsto> results))
           | Some (Inl e) \<Rightarrow>
               analyze_pools http start_block end_block keys (pool_results(pool_key \<mapsto> []))))"

text \<open>\<^verbatim>\<open>pool_results.get(pool_key, {})\<close>.\<close>

definition get_pool :: "pool_results \<Rightarrow> string \<Rightarrow> recipients" where
  "get_pool pool_results pool_key = (case pool_results pool_key of None \<Rightarrow> [] | Some rs \<Rightarrow> rs)"

text \<open>
  The set \<^verbatim>\<open>all_addresses\<close>, each address once. Python iterates a set in an order of
  its own; the merged dictionary does not depend on it.
\<close>

definition all_addresses :: "string list \<Rightarrow> pool_results \<Rightarrow> string list" where
  "all_addresses selected_pools pool_results =
     remdups (concat (map (\<lambda>pool_key. map fst (get_pool pool_results pool_key)) selected_pools))"

record recipient_record =
  p1_eth_count :: int
  p1_eth_total :: pyfloat
  p1_eth_first_date :: "datetime option"
  p1_eth_last_date :: "datetime option"
  p10_eth_count :: int
  p10_eth_total :: pyfloat
  p10_eth_first_date :: "datetime option"
  p10_eth_last_date :: "datetime option"
  p100_eth_count :: int
  p100_eth_total :: pyfloat
  p100_eth_first_date :: "datetime option"
  p100_eth_last_date :: "datetime option"
  grand_total :: pyfloat
  first_date :: "datetime option"
  last_date :: "datetime option"

text \<open>
  One of the three per-pool blocks (lines 438 to 469), which differ in the pool key only:
  the count, total, first and last date written to the record, and the timestamps appended
  to \<^verbatim>\<open>all_timestamps\<close>. A pool that is not selected, or in which the address has no
  entry, leaves the initial values.
\<close>

definition pool_fields ::
  "(int \<Rightarrow> bool) \<Rightarrow> string list \<Rightarrow> pool_results \<Rightarrow> string \<Rightarrow> string
     \<Rightarrow> error + int \<times> pyfloat \<times> datetime option \<times> datetime option \<times> int list" where
  "pool_fields supported selected_pools pool_results pool_key addr =
     (if pool_key \<in> set selected_pools then
        (case map_of (get_pool pool_results pool_key) addr of
           None \<Rightarrow> Inr (0, Fin 0, None, None, [])
         | Some data \<Rightarrow>
             ebind (truediv (total_wei data) WEI_TO_ETH) (\<lambda>total.
               if transactions data \<noteq> [] then
                 (let timestamps = map timestamp (transactions data)
                  in ebind (ebind (py_min timestamps) (fromtimestamp supported)) (\<lambda>first.
                     ebind (ebind (py_max timestamps) (fromtimestamp supported)) (\<lambda>last.
                       Inr (count data, total, Some first, Some last, timestamps))))
               else Inr (count data, total, None, None, [])))
      else Inr (0, Fin 0, None, None, []))"

text \<open>The body of the loop over \<^verbatim>\<open>all_addresses\<close> (lines 418 to 480).\<close>

definition merge_address ::
  "(int \<Rightarrow> bool) \<Rightarrow> string list \<Rightarrow> pool_results \<Rightarrow> string \<Rightarrow> error + recipient_record" where
  "merge_address supported selected_pools pool_results addr =
     ebind (pool_fields supported selected_pools pool_results ''1_eth'' addr) (\<lambda>(c1, t1, f1, l1, ts1).
     ebind (pool_fields supported selected_pools pool_results ''10_eth'' addr) (\<lambda>(c10, t10, f10, l10, ts10).
     ebind (pool_fields supported selected_pools pool_results ''100_eth'' addr) (\<lambda>(c100, t100, f100, l100, ts100).
       (let all_timestamps = ts1 @ ts10 @ ts100;
            total = fadd (fadd t1 t10) t100;
            r = \<lparr>p1_eth_count = c1, p1_eth_total = t1, p1_eth_first_date = f1, p1_eth_last_date = l1,
                 p10_eth_count = c10, p10_eth_total = t10, p10_eth_first_date = f10, p10_eth_last_date = l10,
                 p100_eth_count = c100, p100_eth_total = t100,
                 p100_eth_first_date = f100, p100_eth_last_date = l100,
                 grand_total = total, first_date = None, last_date = None\<rparr>
        in if all_timestamps \<noteq> [] then
             ebind (ebind (py_min all_timestamps) (fromtimestamp supported)) (\<lambda>first.
             ebind (ebind (py_max all_timestamps) (fromtimestamp supported)) (\<lambda>last.
               Inr (r\<lparr>first_date := Some first, last_date := Some last\<rparr>)))
           else Inr r))))"

fun merge_loop ::
  "(int \<Rightarrow> bool) \<Rightarrow> string list \<Rightarrow> pool_results \<Rightarrow> string list \<Rightarrow> (string \<rightharpoonup> recipient_record)
     \<Rightarrow> error + (string \<rightharpoonup> recipient_record)" where
  "merge_loop supported selected_pools pool_results [] merged = Inr merged"
| "merge_loop supported selected_pools pool_results (addr # addrs) merged =
     ebind (merge_address supported selected_pools pool_results addr) (\<lambda>r.
       merge_loop supported selected_pools pool_results addrs (merged(addr \<mapsto> r)))"

text \<open>Lines 410 to 482.\<close>

definition merge ::
  "(int \<Rightarrow> bool) \<Rightarrow> string list \<Rightarrow> pool_results \<Rightarrow> error + (string \<rightharpoonup> recipient_record)" where
  "merge supported selected_pools pool_results =
     merge_loop supported selected_pools pool_results
       (all_addresses selected_pools pool_results) Map.empty"

text \<open>
  \<^verbatim>\<open>analyze_tornado_cash\<close>. The dates are given as the \<^verbatim>\<open>datetime\<close> values of the caller;
  \<open>None\<close> is the result of a run that never returns, \<open>Some (Inl e)\<close> that of a run that
  raises \<open>e\<close>.
\<close>

text \<open>Lines 368 and 369: every pool when no selection is given.\<close>

definition selection :: "string list option \<Rightarrow> string list" where
  "selection selected_pools =
     (case selected_pools of None \<Rightarrow> map fst TORNADO_CASH_POOLS | Some ps \<Rightarrow> ps)"

definition analyze_tornado_cash ::
  "(request \<Rightarrow> reply) \<Rightarrow> (int \<Rightarrow> bool) \<Rightarrow> datetime option \<Rightarrow> datetime option \<Rightarrow> string list option
     \<Rightarrow> (error + (string \<rightharpoonup> recipient_record)) option" where
  "analyze_tornado_cash http supported start_date end_date selected_pools =
     (let selected_pools = selection selected_pools
      in case resolve_blocks http start_date end_date of
           Inl e \<Rightarrow> Some (Inl e)
         | Inr (start_block, end_block) \<Rightarrow>
             (case analyze_pools http start_block end_block selected_pools Map.empty of
                None \<Rightarrow> None
              | Some pool_results \<Rightarrow> Some (merge supported selected_pools pool_results)))"

section \<open>Presenter: the rows of the table and of the CSV file\<close>

text \<open>
  The merged dictionary reaches the presenters as its \<^verbatim>\<open>items()\<close>, in the dictionary's
  order. A printed or written field is kept with the value it was formatted from: an
  integer, a float printed with two decimals (\<^verbatim>\<open>.2f\<close>), a float written by \<^verbatim>\<open>csv\<close> as
  its \<^verbatim>\<open>repr\<close>, a date as \<^verbatim>\<open>%Y-%m-%d\<close>, or a text.
\<close>

datatype field = Num int | Fixed2 pyfloat | Repr pyfloat | Date datetime | Text string

text \<open>
  \<^verbatim>\<open>sorted(results.items(), key=lambda x: x[1]["grand_total"], reverse=True)\<close>: a stable
  sort, greatest key first, items of equal key in their original order (for keys that
  \<^verbatim>\<open><\<close> orders totally, that is without NaN).
\<close>

fun insert_desc :: "('a \<Rightarrow> pyfloat) \<Rightarrow> 'a \<Rightarrow> 'a list \<Rightarrow> 'a list" where
  "insert_desc key x [] = [x]"
| "insert_desc key x (y # ys) =
     (if fless (key x) (key y) then y # insert_desc key x ys else x # y # ys)"

definition sorted_desc :: "('a \<Rightarrow> pyfloat) \<Rightarrow> 'a list \<Rightarrow> 'a list" where
  "sorted_desc key xs = foldr (insert_desc key) xs []"

definition default_pools :: "string list option \<Rightarrow> string list" where
  "default_pools selected_pools =
     (case selected_pools of None \<Rightarrow> [''1_eth'', ''10_eth'', ''100_eth''] | Some ps \<Rightarrow> ps)"

text \<open>\<^verbatim>\<open>fmt_date\<close> of \<^verbatim>\<open>format_output\<close> and of \<^verbatim>\<open>export_csv\<close>.\<close>

definition fmt_date_table :: "datetime option \<Rightarrow> field" where
  "fmt_date_table dt = (case dt of None \<Rightarrow> Text ''-'' | Some d \<Rightarrow> Date d)"

definition fmt_date_csv :: "datetime option \<Rightarrow> field" where
  "fmt_date_csv dt = (case dt of None \<Rightarrow> Text [] | Some d \<Rightarrow> Date d)"

text \<open>
  The recipient rows \<^verbatim>\<open>format_output\<close> prints (lines 494 to 505 and 566 to 591): none
  when the dictionary is empty; recipients whose grand total is not above zero are left
  out unless \<^verbatim>\<open>show_zero\<close> is set.
\<close>

definition table_row :: "string list \<Rightarrow> string \<times> recipient_record \<Rightarrow> field list" where
  "table_row selected_pools item =
     (case item of (addr, stats) \<Rightarrow>
        [Text addr]
        @ (if ''1_eth'' \<in> set selected_pools
           then [Num (p1_eth_count stats), Fixed2 (p1_eth_total stats),
                 fmt_date_table (p1_eth_first_date stats), fmt_date_table (p1_eth_last_date stats)]
           else [])
        @ (if ''10_eth'' \<in> set selected_pools
           then [Num (p10_eth_count stats), Fixed2 (p10_eth_total stats),
                 fmt_date_table (p10_eth_first_date stats), fmt_date_table (p10_eth_last_date stats)]
           else [])
        @ (if ''100_eth'' \<in> set selected_pools
           then [Num (p100_eth_count stats), Fixed2 (p100_eth_total stats),
                 fmt_date_table (p100_eth_first_date stats), fmt_date_table (p100_eth_last_date stats)]
           else [])
        @ [Fixed2 (grand_total stats)])"

definition format_output ::
  "(string \<times> recipient_record) list \<Rightarrow> bool \<Rightarrow> string list option \<Rightarrow> field list list" where
  "format_output results show_zero selected_pools =
     (let selected_pools = default_pools selected_pools
      in if results = [] then []
         else
           (let results = (if \<not> show_zero
                           then filter (\<lambda>(k, v). fless (Fin 0) (grand_total v)) results
                           else results);
                sorted_recipients = sorted_desc (\<lambda>x. grand_total (snd x)) results
            in map (table_row selected_pools) sorted_recipients))"

text \<open>The recipient rows \<^verbatim>\<open>export_csv\<close> writes after the header (lines 630 to 681).\<close>

definition csv_row :: "string list \<Rightarrow> string \<times> recipient_record \<Rightarrow> field list" where
  "csv_row selected_pools item =
     (case item of (addr, stats) \<Rightarrow>
        [Text addr]
        @ (if ''1_eth'' \<in> set selected_pools
           then [Num (p1_eth_count stats), Repr (p1_eth_total stats),
                 fmt_date_csv (p1_eth_first_date stats), fmt_date_csv (p1_eth_last_date stats)]
           else [])
        @ (if ''10_eth'' \<in> set selected_pools
           then [Num (p10_eth_count stats), Repr (p10_eth_total stats),
                 fmt_date_csv (p10_eth_first_date stats), fmt_date_csv (p10_eth_last_date stats)]
           else [])
        @ (if ''100_eth'' \<in> set selected_pools
           then [Num (p100_eth_count stats), Repr (p100_eth_total stats),
                 fmt_date_csv (p100_eth_first_date stats), fmt_date_csv (p100_eth_last_date stats)]
           else [])
        @ [Repr (grand_total stats), fmt_date_csv (first_date stats), fmt_date_csv (last_date stats)])"

definition export_csv ::
  "(string \<times> recipient_record) list \<Rightarrow> string list option \<Rightarrow> field list list" where
  "export_csv results selected_pools =
     (let selected_pools = default_pools selected_pools;
          sorted_recipients = sorted_desc (\<lambda>x. grand_total (snd x)) results
      in map (csv_row selected_pools) sorted_recipients)"

section \<open>The withdrawal filter, as the specification words it\<close>

text \<open>
  The value of an integer field, 0 when the field is absent or is no integer; a withdrawal
  is a transaction whose sender is the pool, compared without regard to case, and whose
  value is strictly positive. Its receiver is absent when the key \<^verbatim>\<open>to\<close> is there and holds
  no address: null, the empty string or the number 0. Its recipient is the lower-cased
  receiver, or the sentinel when the receiver is absent.
\<close>

definition int_field :: "jval option \<Rightarrow> int" where
  "int_field f = (case f of None \<Rightarrow> 0 | Some v \<Rightarrow> (case py_int v of Inl e \<Rightarrow> 0 | Inr n \<Rightarrow> n))"

definition sender_matches :: "string \<Rightarrow> raw_tx \<Rightarrow> bool" where
  "sender_matches pool tx =
     (case tx_from tx of Some (JStr s) \<Rightarrow> lower s = lower pool | _ \<Rightarrow> False)"

definition is_withdrawal :: "string \<Rightarrow> raw_tx \<Rightarrow> bool" where
  "is_withdrawal pool tx \<longleftrightarrow> sender_matches pool tx \<and> 0 < int_field (tx_value tx)"

definition receiver_absent :: "raw_tx \<Rightarrow> bool" where
  "receiver_absent tx =
     (case tx_to tx of
        Some JNull \<Rightarrow> True
      | Some (JStr s) \<Rightarrow> s = []
      | Some (JNum n) \<Rightarrow> n = 0
      | None \<Rightarrow> False)"

definition recipient_of :: "raw_tx \<Rightarrow> string" where
  "recipient_of tx =
     (case tx_to tx of
        Some (JStr s) \<Rightarrow> if s = [] then ''contract_creation'' else lower s
      | _ \<Rightarrow> ''contract_creation'')"

definition detail_of :: "tx_kind \<Rightarrow> raw_tx \<Rightarrow> tx_detail" where
  "detail_of k tx =
     \<lparr>hash = (case tx_hash tx of None \<Rightarrow> JStr ''internal'' | Some h \<Rightarrow> h),
      value_wei = int_field (tx_value tx),
      timestamp = int_field (tx_timeStamp tx),
      tx_type = type_name k\<rparr>"

text \<open>
  A transaction the loop can read without raising: its sender is a string; if the sender is
  the pool, its value is an integer; and if that value is positive, the key \<^verbatim>\<open>to\<close> is there
  and holds a string, null or the number 0, the timestamp is an integer and, in the loop over
  normal transactions, the key \<^verbatim>\<open>hash\<close> is there.
\<close>

definition is_integer :: "jval option \<Rightarrow> bool" where
  "is_integer f = (case f of None \<Rightarrow> False | Some v \<Rightarrow> (case py_int v of Inl e \<Rightarrow> False | Inr n \<Rightarrow> True))"

definition receiver_readable :: "raw_tx \<Rightarrow> bool" where
  "receiver_readable tx =
     (case tx_to tx of
        None \<Rightarrow> False
      | Some JNull \<Rightarrow> True
      | Some (JStr s) \<Rightarrow> True
      | Some (JNum n) \<Rightarrow> n = 0)"

definition readable :: "string \<Rightarrow> tx_kind \<Rightarrow> raw_tx \<Rightarrow> bool" where
  "readable pool k tx =
     (case tx_from tx of
        Some (JStr s) \<Rightarrow>
          lower s \<noteq> lower pool \<or>
          (is_integer (tx_value tx) \<and>
            (int_field (tx_value tx) \<le> 0 \<or>
              (receiver_readable tx \<and> is_integer (tx_timeStamp tx)
               \<and> (k = Normal \<longrightarrow> tx_hash tx \<noteq> None))))
      | _ \<Rightarrow> False)"

text \<open>The details stored under a recipient, none when the recipient has no entry.\<close>

definition stored :: "recipients \<Rightarrow> string \<Rightarrow> tx_detail list" where
  "stored rs r = (case map_of rs r of None \<Rightarrow> [] | Some st \<Rightarrow> transactions st)"

text \<open>The fetched transactions, normal ones first, each with the loop that reads it.\<close>

definition tagged :: "raw_tx list \<Rightarrow> raw_tx list \<Rightarrow> (tx_kind \<times> raw_tx) list" where
  "tagged normal_txs internal_txs = map (Pair Normal) normal_txs @ map (Pair Internal) internal_txs"

text \<open>
  Paging, as the specification words it: the request for a page, the transactions a reply
  carries (none unless it is a list), and whether a reply is a full page.
\<close>

definition page_request :: "string \<Rightarrow> string \<Rightarrow> int \<Rightarrow> int \<Rightarrow> nat \<Rightarrow> request" where
  "page_request action addr start_block end_block page =
     AccountTxs action addr start_block end_block page 10000 ''asc''"

definition page_txs :: "error + payload \<Rightarrow> raw_tx list" where
  "page_txs r = (case r of Inr (PList xs) \<Rightarrow> xs | _ \<Rightarrow> [])"

definition full_page :: "error + payload \<Rightarrow> bool" where
  "full_page r = (case r of Inr (PList xs) \<Rightarrow> 10000 \<le> length xs | _ \<Rightarrow> False)"

definition page_outcome :: "error + payload \<Rightarrow> raw_tx list \<Rightarrow> error + raw_tx list" where
  "page_outcome r txs = (case r of Inl e \<Rightarrow> Inl e | Inr result \<Rightarrow> Inr txs)"

text \<open>
  The merge, as the specification words it: the timestamps a recipient has in a pool (none
  when the pool is not selected), the first and last date of a list of timestamps, whether
  a recipient is present in a pool, the per-pool fields of a record by pool key, and the
  float sum of a list, left to right.
\<close>

definition pool_timestamps :: "string list \<Rightarrow> pool_results \<Rightarrow> string \<Rightarrow> string \<Rightarrow> int list" where
  "pool_timestamps selected_pools pool_results pool_key addr =
     (if pool_key \<in> set selected_pools
      then map timestamp (stored (get_pool pool_results pool_key) addr) else [])"

definition date_range :: "int list \<Rightarrow> datetime option \<times> datetime option" where
  "date_range ts =
     (if ts = [] then (None, None)
      else (Some (FromTimestamp (Min (set ts))), Some (FromTimestamp (Max (set ts)))))"

definition present :: "string list \<Rightarrow> pool_results \<Rightarrow> string \<Rightarrow> string \<Rightarrow> bool" where
  "present selected_pools pool_results addr pool_key \<longleftrightarrow>
     pool_key \<in> set selected_pools \<and> addr \<in> fst ` set (get_pool pool_results pool_key)"

definition pool_count :: "recipient_record \<Rightarrow> string \<Rightarrow> int" where
  "pool_count r pool_key =
     (if pool_key = ''1_eth'' then p1_eth_count r
      else if pool_key = ''10_eth'' then p10_eth_count r else p100_eth_count r)"

definition pool_total :: "recipient_record \<Rightarrow> string \<Rightarrow> pyfloat" where
  "pool_total r pool_key =
     (if pool_key = ''1_eth'' then p1_eth_total r
      else if pool_key = ''10_eth'' then p10_eth_total r else p100_eth_total r)"

definition pool_dates :: "recipient_record \<Rightarrow> string \<Rightarrow> datetime option \<times> datetime option" where
  "pool_dates r pool_key =
     (if pool_key = ''1_eth'' then (p1_eth_first_date r, p1_eth_last_date r)
      else if pool_key = ''10_eth'' then (p10_eth_first_date r, p10_eth_last_date r)
      else (p100_eth_first_date r, p100_eth_last_date r))"

definition fsum :: "pyfloat list \<Rightarrow> pyfloat" where
  "fsum xs = foldl fadd (Fin 0) xs"

definition pool_keys :: "string list" where
  "pool_keys = [''1_eth'', ''10_eth'', ''100_eth'']"

section \<open>A sample run\<close>

text \<open>
  An explorer for the examples. The 10 ETH pool has three normal transactions (a
  withdrawal to a recipient, a deposit, a transfer of value zero) and three internal ones
  (a second withdrawal to the same recipient, later, one with an empty receiver and one
  with a null receiver); the 1 ETH pool has none; every request about the 100 ETH pool
  fails.
\<close>

definition sample_tx :: "string \<Rightarrow> string \<Rightarrow> string \<Rightarrow> string \<Rightarrow> jval option \<Rightarrow> raw_tx" where
  "sample_tx sender receiver amount stamp h =
     \<lparr>tx_from = Some (JStr sender), tx_to = Some (JStr receiver), tx_value = Some (JStr amount),
      tx_timeStamp = Some (JStr stamp), tx_hash = h\<rparr>"

definition pool_withdrawal_1 :: raw_tx where
  "pool_withdrawal_1 = sample_tx ''0x910Cbd523D972eb0a6f4cAe4618aD62622b39DbF'' ''0xA11CE''
        ''10000000000000000000'' ''1700000000'' (Some (JStr ''0x01''))"

definition pool_deposit :: raw_tx where
  "pool_deposit = sample_tx ''0xa11ce'' ''0x910cbd523d972eb0a6f4cae4618ad62622b39dbf''
        ''10000000000000000000'' ''1600000000'' (Some (JStr ''0x02''))"

definition pool_zero_transfer :: raw_tx where
  "pool_zero_transfer = sample_tx ''0x910cbd523d972eb0a6f4cae4618ad62622b39dbf'' ''0xb0b''
        ''0'' ''1650000000'' (Some (JStr ''0x03''))"

definition pool_withdrawal_2 :: raw_tx where
  "pool_withdrawal_2 = sample_tx ''0x910cbd523d972eb0a6f4cae4618ad62622b39dbf'' ''0xa11ce''
        ''10000000000000000000'' ''1700000500'' None"

definition pool_creation_empty :: raw_tx where
  "pool_creation_empty = sample_tx ''0x910cbd523d972eb0a6f4cae4618ad62622b39dbf'' []
        ''10000000000000000000'' ''1690000000'' None"

definition pool_creation_null :: raw_tx where
  "pool_creation_null =
     \<lparr>tx_from = Some (JStr ''0x910cbd523d972eb0a6f4cae4618ad62622b39dbf''), tx_to = Some JNull,
      tx_value = Some (JStr ''10000000000000000000''), tx_timeStamp = Some (JStr ''1695000000''),
      tx_hash = None\<rparr>"

definition sample_normal :: "raw_tx list" where
  "sample_normal = [pool_withdrawal_1, pool_deposit, pool_zero_transfer]"

definition sample_internal :: "raw_tx list" where
  "sample_internal = [pool_withdrawal_2, pool_creation_empty, pool_creation_null]"

definition sample_http :: "request \<Rightarrow> reply" where
  "sample_http r =
     (case r of
        GetBlockNoByTime stamp closest \<Rightarrow> Reply ''1'' ''OK'' (PVal (JStr ''18000000''))
      | AccountTxs action addr start_block end_block page offs srt \<Rightarrow>
          if addr = ''0x910cbd523d972eb0a6f4cae4618ad62622b39dbf'' then
            if page = 1 then
              Reply ''1'' ''OK'' (PList (if action = ''txlist'' then sample_normal else sample_internal))
            else Reply ''0'' ''No transactions found'' (PList [])
          else if addr = ''0xa160cdab225685da1d56aa342ad8841c3b53f291'' then HttpFailure
          else Reply ''0'' ''No transactions found'' (PList []))"

definition sample_detail :: "string \<Rightarrow> int \<Rightarrow> string \<Rightarrow> tx_detail" where
  "sample_detail h stamp kind =
     \<lparr>hash = JStr h, value_wei = 10000000000000000000, timestamp = stamp, tx_type = kind\<rparr>"

definition sample_recipients :: recipients where
  "sample_recipients =
     [(''0xa11ce'', \<lparr>count = 2, total_wei = 20000000000000000000,
         transactions = [sample_detail ''0x01'' 1700000000 ''normal'',
                         sample_detail ''internal'' 1700000500 ''internal'']\<rparr>),
      (''contract_creation'', \<lparr>count = 2, total_wei = 20000000000000000000,
         transactions = [sample_detail ''internal'' 1690000000 ''internal'',
                         sample_detail ''internal'' 1695000000 ''internal'']\<rparr>)]"

text \<open>
  Two explorers for the paging loop: one whose first page is full and whose second page
  holds a single transaction, and one whose every page is full.
\<close>

definition paging_tx :: raw_tx where
  "paging_tx = sample_tx ''0xfeed'' ''0xa11ce'' ''1'' ''1700000000'' (Some (JStr ''0x04''))"

definition paging_http :: "request \<Rightarrow> reply" where
  "paging_http r =
     (case r of
        GetBlockNoByTime stamp closest \<Rightarrow> HttpFailure
      | AccountTxs action addr start_block end_block page offs srt \<Rightarrow>
          Reply ''1'' ''OK'' (PList (if page = 1 then replicate 10000 paging_tx else [paging_tx])))"

definition endless_http :: "request \<Rightarrow> reply" where
  "endless_http r = Reply ''1'' ''OK'' (PList (replicate 10000 paging_tx))"

text \<open>
  What the sample run records for the three pools, and the records it returns: with every
  pool selected, no date given and every timestamp supported.
\<close>

definition sample_results :: pool_results where
  "sample_results = [''1_eth'' \<mapsto> [], ''10_eth'' \<mapsto> sample_recipients, ''100_eth'' \<mapsto> []]"

definition sample_record :: "int \<Rightarrow> rat \<Rightarrow> int \<Rightarrow> int \<Rightarrow> recipient_record" where
  "sample_record n eth t_first t_last =
     \<lparr>p1_eth_count = 0, p1_eth_total = Fin 0, p1_eth_first_date = None, p1_eth_last_date = None,
      p10_eth_count = n, p10_eth_total = Fin eth,
      p10_eth_first_date = Some (FromTimestamp t_first), p10_eth_last_date = Some (FromTimestamp t_last),
      p100_eth_count = 0, p100_eth_total = Fin 0, p100_eth_first_date = None, p100_eth_last_date = None,
      grand_total = Fin eth,
      first_date = Some (FromTimestamp t_first), last_date = Some (FromTimestamp t_last)\<rparr>"

definition sample_merged :: "string \<rightharpoonup> recipient_record" where
  "sample_merged =
     [''0xa11ce'' \<mapsto> sample_record 2 20 1700000000 1700000500,
      ''contract_creation'' \<mapsto> sample_record 2 20 1690000000 1695000000]"

text \<open>
  An explorer whose only transaction is a transfer out of the 10 ETH pool that has no
  \<^verbatim>\<open>to\<close> key at all.
\<close>

definition keyless_tx :: raw_tx where
  "keyless_tx =
     \<lparr>tx_from = Some (JStr ''0x910cbd523d972eb0a6f4cae4618ad62622b39dbf''), tx_to = None,
      tx_value = Some (JStr ''10000000000000000000''), tx_timeStamp = Some (JStr ''1690000000''),
      tx_hash = Some (JStr ''0x05'')\<rparr>"

definition keyless_http :: "request \<Rightarrow> reply" where
  "keyless_http r =
     (case r of
        GetBlockNoByTime stamp closest \<Rightarrow> Reply ''1'' ''OK'' (PVal (JStr ''18000000''))
      | AccountTxs action addr start_block end_block page offs srt \<Rightarrow>
          if action = ''txlist'' \<and> page = 1 then Reply ''1'' ''OK'' (PList [keyless_tx])
          else Reply ''0'' ''No transactions found'' (PList []))"

section \<open>Properties of the pool analyzer\<close>

lemma ebind_Inr: "ebind m f = Inr y \<longleftrightarrow> (\<exists>x. m = Inr x \<and> f x = Inr y)"
  by (cases m) (simp_all add: ebind_def)

lemma ebind_Inl: "ebind m f = Inl e \<longleftrightarrow> m = Inl e \<or> (\<exists>x. m = Inr x \<and> f x = Inl e)"
  by (cases m) (simp_all add: ebind_def)

lemma getitem_Inr: "getitem f = Inr v \<longleftrightarrow> f = Some v"
  by (cases f) (simp_all add: getitem_def)

lemma str_lower_Inr: "str_lower j = Inr s \<longleftrightarrow> (\<exists>t. j = JStr t \<and> s = lower t)"
  by (cases j) auto

lemma hash_of_Inr:
  "hash_of k tx = Inr h \<Longrightarrow> h = (case tx_hash tx of None \<Rightarrow> JStr ''internal'' | Some h \<Rightarrow> h)"
  by (cases k) (auto simp: getitem_Inr)

lemma recipient_Inr:
  "(if truthy t then str_lower t else Inr ''contract_creation'') = Inr a \<Longrightarrow> tx_to tx = Some t
    \<Longrightarrow> a = recipient_of tx"
  by (cases t) (auto simp: recipient_of_def split: if_splits)

lemma outgoing_Some:
  assumes "outgoing (lower pool) k tx = Inr (Some (a, d))"
  shows "is_withdrawal pool tx \<and> a = recipient_of tx \<and> d = detail_of k tx"
proof -
  from assms obtain s v amount t stamp ts h where
    f: "tx_from tx = Some (JStr s)" "lower s = lower pool"
    and v: "tx_value tx = Some v" "py_int v = Inr amount" "amount > 0"
    and t: "tx_to tx = Some t" "(if truthy t then str_lower t else Inr ''contract_creation'') = Inr a"
    and h: "hash_of k tx = Inr h"
    and ts: "tx_timeStamp tx = Some ts" "py_int ts = Inr stamp"
    and d: "d = \<lparr>hash = h, value_wei = amount, timestamp = stamp, tx_type = type_name k\<rparr>"
    unfolding outgoing_def
    by (auto simp: ebind_Inr getitem_Inr str_lower_Inr split: if_splits)
  have "is_withdrawal pool tx"
    using f v by (simp add: is_withdrawal_def sender_matches_def int_field_def)
  moreover have "a = recipient_of tx" using t by (rule recipient_Inr[rotated])
  moreover have "d = detail_of k tx"
    using d v ts hash_of_Inr[OF h] by (simp add: detail_of_def int_field_def)
  ultimately show ?thesis by simp
qed

lemma outgoing_None:
  assumes "outgoing (lower pool) k tx = Inr None"
  shows "\<not> is_withdrawal pool tx"
  using assms unfolding outgoing_def is_withdrawal_def sender_matches_def int_field_def
  by (auto simp: ebind_Inr getitem_Inr str_lower_Inr split: if_splits)

lemma lookup_add_tx:
  "lookup_default (add_tx a d rs) r =
     (if r = a
      then (lookup_default rs a)\<lparr>count := count (lookup_default rs a) + 1,
             total_wei := total_wei (lookup_default rs a) + value_wei d,
             transactions := transactions (lookup_default rs a) @ [d]\<rparr>
      else lookup_default rs r)"
  by (simp add: add_tx_def lookup_default_def update_conv' Let_def)

lemma keys_add_tx: "fst ` set (add_tx a d rs) = insert a (fst ` set rs)"
  by (simp add: add_tx_def dom_update Let_def)

lemma distinct_add_tx: "distinct (map fst rs) \<Longrightarrow> distinct (map fst (add_tx a d rs))"
  by (simp add: add_tx_def distinct_update Let_def)

text \<open>The invariant of an entry: its count and total are those of its transaction list.\<close>

definition stat_ok :: "pool_stat \<Rightarrow> bool" where
  "stat_ok st \<longleftrightarrow> count st = int (length (transactions st))
      \<and> total_wei st = sum_list (map value_wei (transactions st))"

lemma process_stat_ok:
  "process p k txs rs = Inr rs' \<Longrightarrow> \<forall>r. stat_ok (lookup_default rs r)
     \<Longrightarrow> stat_ok (lookup_default rs' r)"
proof (induction txs arbitrary: rs)
  case Nil
  then show ?case by simp
next
  case (Cons tx txs)
  show ?case
  proof (cases "outgoing p k tx")
    case (Inl e)
    with Cons.prems show ?thesis by simp
  next
    case (Inr o1)
    show ?thesis
    proof (cases o1)
      case None
      with Inr Cons show ?thesis by simp
    next
      case (Some ad)
      obtain a d where ad: "ad = (a, d)" by (cases ad)
      have "\<forall>r. stat_ok (lookup_default (add_tx a d rs) r)"
        using Cons.prems(2) by (simp add: lookup_add_tx stat_ok_def)
      moreover have "process p k txs (add_tx a d rs) = Inr rs'"
        using Cons.prems(1) Inr Some ad by simp
      ultimately show ?thesis by (rule Cons.IH[rotated])
    qed
  qed
qed

lemma process_distinct:
  "process p k txs rs = Inr rs' \<Longrightarrow> distinct (map fst rs) \<Longrightarrow> distinct (map fst rs')"
  by (induction txs arbitrary: rs)
     (auto split: sum.splits option.splits simp: distinct_add_tx)

lemma aggregate_Inr:
  assumes "aggregate p normal_txs internal_txs = Inr rs"
  obtains rs1 where "process p Normal normal_txs [] = Inr rs1"
    and "process p Internal internal_txs rs1 = Inr rs"
  using assms by (auto simp: aggregate_def ebind_Inr)

lemma aggregate_stat_ok:
  assumes "aggregate p normal_txs internal_txs = Inr rs"
  shows "stat_ok (lookup_default rs r)"
proof -
  from assms obtain rs1 where 1: "process p Normal normal_txs [] = Inr rs1"
    and 2: "process p Internal internal_txs rs1 = Inr rs"
    by (rule aggregate_Inr)
  have "\<forall>r. stat_ok (lookup_default [] r)"
    by (simp add: lookup_default_def default_stat_def stat_ok_def)
  with 1 have "\<forall>r. stat_ok (lookup_default rs1 r)" by (blast intro: process_stat_ok)
  with 2 show ?thesis by (blast intro: process_stat_ok)
qed

lemma aggregate_distinct:
  assumes "aggregate p normal_txs internal_txs = Inr rs"
  shows "distinct (map fst rs)"
proof -
  from assms obtain rs1 where 1: "process p Normal normal_txs [] = Inr rs1"
    and 2: "process p Internal internal_txs rs1 = Inr rs"
    by (rule aggregate_Inr)
  from 1 have "distinct (map fst rs1)" by (rule process_distinct) simp
  with 2 show ?thesis by (rule process_distinct)
qed

lemma analyze_pool_Inr:
  assumes "analyze_pool http pool_address pool_name start_block end_block = Some (Inr rs)"
  obtains internal_txs normal_txs where
    "get_internal_transactions http (lower pool_address) start_block end_block = Some (Inr internal_txs)"
    "get_normal_transactions http (lower pool_address) start_block end_block = Some (Inr normal_txs)"
    "aggregate (lower pool_address) normal_txs internal_txs = Inr rs"
  using assms unfolding analyze_pool_def Let_def
  by (auto split: option.splits sum.splits)

lemma analyze_pool_distinct:
  assumes "analyze_pool http pool_address pool_name start_block end_block = Some (Inr rs)"
  shows "distinct (map fst rs)"
  using assms by (auto elim!: analyze_pool_Inr intro: aggregate_distinct)

lemma analyze_pool_stat_ok:
  assumes "analyze_pool http pool_address pool_name start_block end_block = Some (Inr rs)"
    and "map_of rs r = Some st"
  shows "stat_ok st"
proof -
  from assms(1) obtain internal_txs normal_txs where
    agg: "aggregate (lower pool_address) normal_txs internal_txs = Inr rs"
    by (rule analyze_pool_Inr)
  have "lookup_default rs r = st" using assms(2) by (simp add: lookup_default_def)
  moreover have "stat_ok (lookup_default rs r)" using agg by (rule aggregate_stat_ok)
  ultimately show ?thesis by simp
qed

lemma stored_lookup: "stored rs r = transactions (lookup_default rs r)"
  by (simp add: stored_def lookup_default_def default_stat_def split: option.splits)

lemma process_stored:
  "process (lower pool) k txs rs = Inr rs' \<Longrightarrow>
     stored rs' r = stored rs r
        @ map (detail_of k) (filter (\<lambda>tx. is_withdrawal pool tx \<and> recipient_of tx = r) txs)"
proof (induction txs arbitrary: rs)
  case Nil
  then show ?case by simp
next
  case (Cons tx txs)
  show ?case
  proof (cases "outgoing (lower pool) k tx")
    case (Inl e)
    with Cons.prems show ?thesis by simp
  next
    case (Inr o1)
    show ?thesis
    proof (cases o1)
      case None
      with Inr have "\<not> is_withdrawal pool tx" by (simp add: outgoing_None)
      moreover have "process (lower pool) k txs rs = Inr rs'" using Cons.prems Inr None by simp
      ultimately show ?thesis using Cons.IH by simp
    next
      case (Some ad)
      obtain a d where ad: "ad = (a, d)" by (cases ad)
      with Inr Some have w: "is_withdrawal pool tx" "a = recipient_of tx" "d = detail_of k tx"
        using outgoing_Some[of pool k tx a d] by simp_all
      have "process (lower pool) k txs (add_tx a d rs) = Inr rs'"
        using Cons.prems Inr Some ad by simp
      then have "stored rs' r = stored (add_tx a d rs) r
        @ map (detail_of k) (filter (\<lambda>tx. is_withdrawal pool tx \<and> recipient_of tx = r) txs)"
        by (rule Cons.IH)
      moreover have "stored (add_tx a d rs) r = (if r = a then stored rs r @ [d] else stored rs r)"
        by (simp add: stored_lookup lookup_add_tx)
      ultimately show ?thesis using w by simp
    qed
  qed
qed

lemma process_keys:
  "process (lower pool) k txs rs = Inr rs' \<Longrightarrow>
     fst ` set rs' = fst ` set rs \<union> recipient_of ` {tx \<in> set txs. is_withdrawal pool tx}"
proof (induction txs arbitrary: rs)
  case Nil
  then show ?case by simp
next
  case (Cons tx txs)
  show ?case
  proof (cases "outgoing (lower pool) k tx")
    case (Inl e)
    with Cons.prems show ?thesis by simp
  next
    case (Inr o1)
    show ?thesis
    proof (cases o1)
      case None
      with Inr have "\<not> is_withdrawal pool tx" by (simp add: outgoing_None)
      moreover have "process (lower pool) k txs rs = Inr rs'" using Cons.prems Inr None by simp
      ultimately show ?thesis using Cons.IH[of rs] by auto
    next
      case (Some ad)
      obtain a d where ad: "ad = (a, d)" by (cases ad)
      with Inr Some have w: "is_withdrawal pool tx" "a = recipient_of tx"
        using outgoing_Some[of pool k tx a d] by simp_all
      have "process (lower pool) k txs (add_tx a d rs) = Inr rs'"
        using Cons.prems Inr Some ad by simp
      then have "fst ` set rs' = fst ` set (add_tx a d rs)
          \<union> recipient_of ` {tx \<in> set txs. is_withdrawal pool tx}"
        by (rule Cons.IH)
      then show ?thesis using w by (auto simp: keys_add_tx)
    qed
  qed
qed

lemma aggregate_stored:
  assumes "aggregate (lower pool) normal_txs internal_txs = Inr rs"
  shows "stored rs r = map (\<lambda>(k, tx). detail_of k tx)
           (filter (\<lambda>(k, tx). is_withdrawal pool tx \<and> recipient_of tx = r)
              (tagged normal_txs internal_txs))"
proof -
  from assms obtain rs1 where 1: "process (lower pool) Normal normal_txs [] = Inr rs1"
    and 2: "process (lower pool) Internal internal_txs rs1 = Inr rs"
    by (rule aggregate_Inr)
  have "stored [] r = []" by (simp add: stored_def)
  with process_stored[OF 1, of r] process_stored[OF 2, of r]
  show ?thesis by (simp add: tagged_def filter_map comp_def)
qed

lemma aggregate_keys:
  assumes "aggregate (lower pool) normal_txs internal_txs = Inr rs"
  shows "fst ` set rs = recipient_of ` {tx \<in> set normal_txs \<union> set internal_txs. is_withdrawal pool tx}"
proof -
  from assms obtain rs1 where 1: "process (lower pool) Normal normal_txs [] = Inr rs1"
    and 2: "process (lower pool) Internal internal_txs rs1 = Inr rs"
    by (rule aggregate_Inr)
  from process_keys[OF 1] process_keys[OF 2] show ?thesis by auto
qed

section \<open>Evaluation of the sample run\<close>

lemma lower_pools:
  "lower ''0x47CE0C6eD5B0Ce3d3A51fdb1C52DC66a7c3c2936'' = ''0x47ce0c6ed5b0ce3d3a51fdb1c52dc66a7c3c2936''"
  "lower ''0x910Cbd523D972eb0a6f4cAe4618aD62622b39DbF'' = ''0x910cbd523d972eb0a6f4cae4618ad62622b39dbf''"
  "lower ''0xA160cdAB225685dA1d56aa342Ad8841c3b53f291'' = ''0xa160cdab225685da1d56aa342ad8841c3b53f291''"
  "lower ''0x910cbd523d972eb0a6f4cae4618ad62622b39dbf'' = ''0x910cbd523d972eb0a6f4cae4618ad62622b39dbf''"
  "lower ''0xA11CE'' = ''0xa11ce''"
  "lower ''0xa11ce'' = ''0xa11ce''"
  by code_simp+

lemma int_samples:
  "int_of_str ''10000000000000000000'' = Inr 10000000000000000000"
  "int_of_str ''0'' = Inr 0"
  "int_of_str ''1700000000'' = Inr 1700000000"
  "int_of_str ''1700000500'' = Inr 1700000500"
  "int_of_str ''1690000000'' = Inr 1690000000"
  "int_of_str ''1695000000'' = Inr 1695000000"
  "int_of_str ''18000000'' = Inr 18000000"
  by (simp_all add: int_of_str_def strip_def is_space_def unsigned_def digit_val_def)

lemma sample_fetch_10:
  "get_normal_transactions sample_http ''0x910cbd523d972eb0a6f4cae4618ad62622b39dbf'' sb eb
     = Some (Inr sample_normal)"
  "get_internal_transactions sample_http ''0x910cbd523d972eb0a6f4cae4618ad62622b39dbf'' sb eb
     = Some (Inr sample_internal)"
  unfolding get_normal_transactions_def get_internal_transactions_def
  by (subst fetch_pages.simps, simp add: make_request_def sample_http_def sample_normal_def sample_internal_def)+

lemma sample_outgoing:
  "outgoing ''0x910cbd523d972eb0a6f4cae4618ad62622b39dbf'' Normal pool_withdrawal_1
     = Inr (Some (''0xa11ce'', sample_detail ''0x01'' 1700000000 ''normal''))"
  "outgoing ''0x910cbd523d972eb0a6f4cae4618ad62622b39dbf'' Normal pool_deposit = Inr None"
  "outgoing ''0x910cbd523d972eb0a6f4cae4618ad62622b39dbf'' Normal pool_zero_transfer = Inr None"
  "outgoing ''0x910cbd523d972eb0a6f4cae4618ad62622b39dbf'' Internal pool_withdrawal_2
     = Inr (Some (''0xa11ce'', sample_detail ''internal'' 1700000500 ''internal''))"
  "outgoing ''0x910cbd523d972eb0a6f4cae4618ad62622b39dbf'' Internal pool_creation_empty
     = Inr (Some (''contract_creation'', sample_detail ''internal'' 1690000000 ''internal''))"
  "outgoing ''0x910cbd523d972eb0a6f4cae4618ad62622b39dbf'' Internal pool_creation_null
     = Inr (Some (''contract_creation'', sample_detail ''internal'' 1695000000 ''internal''))"
  by (simp_all add: pool_withdrawal_1_def pool_deposit_def pool_zero_transfer_def
      pool_withdrawal_2_def pool_creation_empty_def pool_creation_null_def
      outgoing_def sample_tx_def ebind_def getitem_def lower_pools int_samples sample_detail_def)

lemma sample_value: "value_wei (sample_detail h stamp kind) = 10000000000000000000"
  by (simp add: sample_detail_def)

lemma sample_process_normal:
  "process ''0x910cbd523d972eb0a6f4cae4618ad62622b39dbf'' Normal sample_normal [] =
     Inr [(''0xa11ce'', \<lparr>count = 1, total_wei = 10000000000000000000,
            transactions = [sample_detail ''0x01'' 1700000000 ''normal'']\<rparr>)]"
  by (simp add: sample_normal_def sample_outgoing add_tx_def lookup_default_def default_stat_def
      sample_value)

lemma sample_add_tx:
  "add_tx ''0xa11ce'' (sample_detail ''internal'' 1700000500 ''internal'')
     [(''0xa11ce'', \<lparr>count = 1, total_wei = 10000000000000000000,
            transactions = [sample_detail ''0x01'' 1700000000 ''normal'']\<rparr>)]
  = [(''0xa11ce'', \<lparr>count = 2, total_wei = 20000000000000000000,
         transactions = [sample_detail ''0x01'' 1700000000 ''normal'',
                         sample_detail ''internal'' 1700000500 ''internal'']\<rparr>)]"
  "add_tx ''contract_creation'' (sample_detail ''internal'' 1690000000 ''internal'')
     [(''0xa11ce'', st)]
  = [(''0xa11ce'', st),
     (''contract_creation'', \<lparr>count = 1, total_wei = 10000000000000000000,
         transactions = [sample_detail ''internal'' 1690000000 ''internal'']\<rparr>)]"
  "add_tx ''contract_creation'' (sample_detail ''internal'' 1695000000 ''internal'')
     [(''0xa11ce'', st),
      (''contract_creation'', \<lparr>count = 1, total_wei = 10000000000000000000,
         transactions = [sample_detail ''internal'' 1690000000 ''internal'']\<rparr>)]
  = [(''0xa11ce'', st),
     (''contract_creation'', \<lparr>count = 2, total_wei = 20000000000000000000,
         transactions = [sample_detail ''internal'' 1690000000 ''internal'',
                         sample_detail ''internal'' 1695000000 ''internal'']\<rparr>)]"
  by (simp_all add: add_tx_def lookup_default_def default_stat_def sample_value)

lemma sample_process_internal:
  "process ''0x910cbd523d972eb0a6f4cae4618ad62622b39dbf'' Internal sample_internal
     [(''0xa11ce'', \<lparr>count = 1, total_wei = 10000000000000000000,
            transactions = [sample_detail ''0x01'' 1700000000 ''normal'']\<rparr>)]
   = Inr sample_recipients"
  unfolding sample_internal_def sample_recipients_def
  by (simp only: process.simps sample_outgoing sum.case option.case prod.case sample_add_tx)

lemma sample_aggregate:
  "aggregate ''0x910cbd523d972eb0a6f4cae4618ad62622b39dbf'' sample_normal sample_internal
     = Inr sample_recipients"
  by (simp add: aggregate_def ebind_def sample_process_normal sample_process_internal)

lemma sample_pool_10:
  "analyze_pool sample_http ''0x910Cbd523D972eb0a6f4cAe4618aD62622b39DbF'' ''10 ETH'' sb eb
     = Some (Inr sample_recipients)"
  unfolding analyze_pool_def Let_def lower_pools
  by (simp only: sample_fetch_10 sample_aggregate option.case sum.case)

lemma paging_replies:
  "make_request paging_http (page_request ''txlist'' ''0xfeed'' 0 99999999 i)
     = Inr (PList (if i = 1 then replicate 10000 paging_tx else [paging_tx]))"
  "make_request endless_http (page_request ''txlist'' ''0xfeed'' 0 99999999 i)
     = Inr (PList (replicate 10000 paging_tx))"
  by (simp_all add: make_request_def paging_http_def endless_http_def page_request_def)

section \<open>Properties of the paging loop\<close>

lemma fetch_pages_stop:
  assumes "\<not> full_page (make_request http (page_request action addr sb eb p))"
  shows "fetch_pages http action addr sb eb p issued all_txs =
     Some (issued @ [page_request action addr sb eb p],
           page_outcome (make_request http (page_request action addr sb eb p))
             (all_txs @ page_txs (make_request http (page_request action addr sb eb p))))"
proof (cases "make_request http (page_request action addr sb eb p)")
  case (Inl e)
  then show ?thesis
    by (subst fetch_pages.simps) (simp add: page_request_def page_outcome_def Let_def)
next
  case (Inr result)
  show ?thesis
  proof (cases result)
    case (PList xs)
    with Inr assms have "length xs < 10000" by (simp add: full_page_def)
    with Inr PList show ?thesis
      by (subst fetch_pages.simps) (simp add: page_request_def page_outcome_def page_txs_def Let_def)
  next
    case (PVal v)
    with Inr show ?thesis
      by (subst fetch_pages.simps) (simp add: page_request_def page_outcome_def page_txs_def Let_def)
  qed
qed

lemma fetch_pages_continue:
  assumes "full_page (make_request http (page_request action addr sb eb p))"
  shows "fetch_pages http action addr sb eb p issued all_txs =
     fetch_pages http action addr sb eb (Suc p) (issued @ [page_request action addr sb eb p])
       (all_txs @ page_txs (make_request http (page_request action addr sb eb p)))"
proof -
  from assms obtain xs where r: "make_request http (page_request action addr sb eb p) = Inr (PList xs)"
    and l: "10000 \<le> length xs"
    by (auto simp: full_page_def split: sum.splits payload.splits)
  from l have "xs \<noteq> []" by auto
  with r l show ?thesis
    by (subst fetch_pages.simps) (simp add: page_request_def page_txs_def Let_def)
qed

lemma fetch_pages_run:
  assumes "p \<le> n"
    and "\<forall>i. p \<le> i \<and> i < n \<longrightarrow> full_page (make_request http (page_request action addr sb eb i))"
    and "\<not> full_page (make_request http (page_request action addr sb eb n))"
  shows "fetch_pages http action addr sb eb p issued all_txs =
     Some (issued @ map (page_request action addr sb eb) [p..<Suc n],
           page_outcome (make_request http (page_request action addr sb eb n))
             (all_txs @ concat (map (\<lambda>i. page_txs (make_request http (page_request action addr sb eb i)))
                [p..<Suc n])))"
  using assms
proof (induction "n - p" arbitrary: p issued all_txs)
  case 0
  then have "p = n" by simp
  with 0 show ?case by (simp add: fetch_pages_stop)
next
  case (Suc d)
  then have lt: "p < n" by simp
  with Suc.prems have full: "full_page (make_request http (page_request action addr sb eb p))"
    by simp
  have "fetch_pages http action addr sb eb (Suc p) (issued @ [page_request action addr sb eb p])
       (all_txs @ page_txs (make_request http (page_request action addr sb eb p))) =
     Some ((issued @ [page_request action addr sb eb p]) @ map (page_request action addr sb eb) [Suc p..<Suc n],
           page_outcome (make_request http (page_request action addr sb eb n))
             ((all_txs @ page_txs (make_request http (page_request action addr sb eb p)))
                @ concat (map (\<lambda>i. page_txs (make_request http (page_request action addr sb eb i)))
                [Suc p..<Suc n])))"
    using Suc.hyps(2) Suc.prems lt by (intro Suc.hyps(1)) auto
  moreover have "[p..<Suc n] = p # [Suc p..<Suc n]" using lt by (simp add: upt_conv_Cons)
  ultimately show ?case by (simp add: fetch_pages_continue[OF full])
qed

lemma fetch_pages_returns_short:
  assumes "fetch_pages http action addr sb eb p issued all_txs = Some y"
  shows "\<exists>i\<ge>p. \<not> full_page (make_request http (page_request action addr sb eb i))"
proof (rule fetch_pages.raw_induct[where P = "\<lambda>h a ad s e q iss al z.
          \<exists>i\<ge>q. \<not> full_page (make_request h (page_request a ad s e i))", OF _ assms])
  fix f :: "(request \<Rightarrow> reply) \<Rightarrow> string \<Rightarrow> string \<Rightarrow> int \<Rightarrow> int \<Rightarrow> nat \<Rightarrow> request list \<Rightarrow> raw_tx list
     \<Rightarrow> (request list \<times> (error + raw_tx list)) option"
  fix h a ad s e q iss al z
  assume IH: "\<And>h a ad s e q iss al z. f h a ad s e q iss al = Some z \<Longrightarrow>
      \<exists>i\<ge>q. \<not> full_page (make_request h (page_request a ad s e i))"
  assume eq: "(let params = AccountTxs a ad s e q 10000 ''asc''
      in case make_request h params of
           Inl e \<Rightarrow> Some (iss @ [params], Inl e)
         | Inr result \<Rightarrow>
             (case result of
                PVal v \<Rightarrow> Some (iss @ [params], Inr al)
              | PList xs \<Rightarrow>
                  if xs \<noteq> [] then
                    if length xs < 10000 then Some (iss @ [params], Inr (al @ xs))
                    else f h a ad s e (q + 1) (iss @ [params]) (al @ xs)
                  else Some (iss @ [params], Inr al))) = Some z"
  show "\<exists>i\<ge>q. \<not> full_page (make_request h (page_request a ad s e i))"
  proof (cases "full_page (make_request h (page_request a ad s e q))")
    case False
    then show ?thesis by (intro exI[of _ q]) simp
  next
    case True
    then obtain xs where r: "make_request h (page_request a ad s e q) = Inr (PList xs)"
      and l: "10000 \<le> length xs"
      by (auto simp: full_page_def split: sum.splits payload.splits)
    from l have ne: "xs \<noteq> []" by auto
    from l have nl: "\<not> length xs < 10000" by simp
    have r': "make_request h (AccountTxs a ad s e q 10000 ''asc'') = Inr (PList xs)"
      using r by (simp only: page_request_def)
    from eq have "f h a ad s e (q + 1) (iss @ [AccountTxs a ad s e q 10000 ''asc'']) (al @ xs) = Some z"
      unfolding Let_def r' by (simp only: sum.case payload.case ne nl if_True if_False not_False_eq_True)
    from IH[OF this] obtain i where i: "i \<ge> q + 1"
      "\<not> full_page (make_request h (page_request a ad s e i))" by (elim exE conjE)
    from i(1) have "i \<ge> q" by simp
    with i(2) show ?thesis by (intro exI[of _ i] conjI)
  qed
qed

lemma fetch_pages_forever:
  assumes "\<forall>i\<ge>p. full_page (make_request http (page_request action addr sb eb i))"
  shows "fetch_pages http action addr sb eb p issued all_txs = None"
proof (cases "fetch_pages http action addr sb eb p issued all_txs")
  case None
  then show ?thesis .
next
  case (Some y)
  from fetch_pages_returns_short[OF Some] assms show ?thesis by blast
qed

section \<open>Properties of rounding\<close>

lemma powi_mono: "a \<le> b \<Longrightarrow> (2::rat) powi a \<le> 2 powi b"
  by (rule power_int_increasing) simp_all

lemma powi_less_exp: "(2::rat) powi a < 2 powi b \<Longrightarrow> a < b"
  using powi_mono[of b a] by (cases "a < b") auto

lemma powi_nat: "0 \<le> a \<Longrightarrow> (2::rat) powi a = of_int (2 ^ nat a)"
  by (simp add: power_int_nonneg_exp)

lemma pow_bitlen:
  assumes "0 < (n::int)"
  shows "2 powi (bitlen n - 1) \<le> (of_int n :: rat)" "(of_int n :: rat) < 2 powi (bitlen n)"
proof -
  from bitlen_bounds[OF assms] have 1: "2 ^ nat (bitlen n - 1) \<le> n" and 2: "n < 2 ^ nat (bitlen n)"
    by auto
  have b: "1 \<le> bitlen n" using assms by (simp add: bitlen_alt_def)
  have "(2::rat) powi (bitlen n - 1) = of_int (2 ^ nat (bitlen n - 1))" using b by (simp add: powi_nat)
  also have "\<dots> \<le> of_int n" using 1 by (simp only: of_int_le_iff)
  finally show "2 powi (bitlen n - 1) \<le> (of_int n :: rat)" .
  have "(of_int n :: rat) < of_int (2 ^ nat (bitlen n))" using 2 by (simp only: of_int_less_iff)
  also have "\<dots> = 2 powi (bitlen n)" using b by (simp add: powi_nat)
  finally show "(of_int n :: rat) < 2 powi (bitlen n)" .
qed

lemma ilog2_bounds:
  assumes "0 < q"
  shows "2 powi (ilog2 q) \<le> q \<and> q < 2 powi (ilog2 q + 1)"
proof (cases "1 \<le> q")
  case True
  define f where "f = \<lfloor>q\<rfloor>"
  have f: "0 < f" using True by (simp add: f_def)
  have "of_int f \<le> q" "q < of_int (f + 1)" using floor_correct[of q] by (simp_all add: f_def)
  moreover have "of_int (f + 1) \<le> (2::rat) powi (bitlen f)"
  proof -
    from pow_bitlen(2)[OF f] have "(of_int f :: rat) < of_int (2 ^ nat (bitlen f))"
      using bitlen_nonneg[of f] by (simp add: powi_nat)
    then have "f + 1 \<le> 2 ^ nat (bitlen f)" by (simp only: of_int_less_iff)
    then have "(of_int (f + 1) :: rat) \<le> of_int (2 ^ nat (bitlen f))" by (simp only: of_int_le_iff)
    then show ?thesis using bitlen_nonneg[of f] by (simp add: powi_nat)
  qed
  ultimately show ?thesis using pow_bitlen(1)[OF f] True by (simp add: ilog2_def f_def[symmetric])
next
  case False
  define t where "t = 1 / q"
  define f where "f = \<lfloor>t\<rfloor>"
  define k where "k = - bitlen f"
  have t: "1 < t" using False assms by (simp add: t_def)
  have f: "0 < f" using t by (simp add: f_def)
  have q: "q = 1 / t" by (simp add: t_def)
  have lo: "of_int f \<le> t" and hi: "t < of_int (f + 1)" using floor_correct[of t] by (simp_all add: f_def)
  have up: "of_int (f + 1) \<le> (2::rat) powi (bitlen f)"
  proof -
    from pow_bitlen(2)[OF f] have "(of_int f :: rat) < of_int (2 ^ nat (bitlen f))"
      using bitlen_nonneg[of f] by (simp add: powi_nat)
    then have "f + 1 \<le> 2 ^ nat (bitlen f)" by (simp only: of_int_less_iff)
    then have "(of_int (f + 1) :: rat) \<le> of_int (2 ^ nat (bitlen f))" by (simp only: of_int_le_iff)
    then show ?thesis using bitlen_nonneg[of f] by (simp add: powi_nat)
  qed
  have "t < 2 powi (bitlen f)" using hi up by simp
  then have "1 / 2 powi (bitlen f) < 1 / t" using t by (simp add: frac_less2)
  then have 1: "2 powi k < q" by (simp add: k_def q power_int_minus_divide)
  have "2 powi (bitlen f - 1) \<le> t" using pow_bitlen(1)[OF f] lo by simp
  then have "1 / t \<le> 1 / 2 powi (bitlen f - 1)" by (simp add: frac_le)
  then have 2: "q \<le> 2 powi (k + 1)"
    using power_int_minus_divide[of "2::rat" "bitlen f - 1"] by (simp add: k_def q)
  have 3: "(2::rat) powi (k + 1) < 2 powi (k + 2)" by (rule power_int_strict_increasing) simp_all
  have il: "ilog2 q = (if 2 powi (k + 1) \<le> q then k + 1 else k)"
    using False by (simp add: ilog2_def Let_def k_def f_def t_def)
  show ?thesis
  proof (cases "2 powi (k + 1) \<le> q")
    case True
    then show ?thesis using il 2 3 by (simp add: add.commute)
  next
    case False
    then show ?thesis using il 1 by simp
  qed
qed

lemma ilog2_ge: "0 < q \<Longrightarrow> 2 powi k \<le> q \<Longrightarrow> k \<le> ilog2 q"
  using ilog2_bounds[of q] powi_less_exp[of k "ilog2 q + 1"] by simp

lemma ilog2_lt: "0 < q \<Longrightarrow> q < 2 powi k \<Longrightarrow> ilog2 q < k"
  using ilog2_bounds[of q] powi_less_exp[of "ilog2 q" k] by simp

lemma rne_of_int: "rne (of_int n) = n"
  by (simp add: rne_def)

lemma rne_ge: "of_int n \<le> x \<Longrightarrow> n \<le> rne x"
proof -
  assume "of_int n \<le> x"
  then have "n \<le> \<lfloor>x\<rfloor>" by (simp add: le_floor_iff)
  then show ?thesis by (simp add: rne_def Let_def)
qed

lemma rne_le: "x \<le> of_int n \<Longrightarrow> rne x \<le> n"
proof -
  assume a: "x \<le> of_int n"
  show ?thesis
  proof (cases "x = of_int n")
    case True then show ?thesis by (simp add: rne_of_int)
  next
    case False
    with a have "x < of_int n" by simp
    then have "\<lfloor>x\<rfloor> < n" by (simp add: floor_less_iff)
    then show ?thesis by (simp add: rne_def Let_def)
  qed
qed

lemma powi_split: "e \<le> j \<Longrightarrow> (2::rat) powi j = of_int (2 ^ nat (j - e)) * 2 powi e"
proof -
  assume "e \<le> j"
  then have "(2::rat) powi (j - e) = of_int (2 ^ nat (j - e))" by (simp add: powi_nat)
  moreover have "(2::rat) powi j = 2 powi (j - e) * 2 powi e"
    using power_int_add[of "2::rat" "j - e" e] by simp
  ultimately show ?thesis by simp
qed

lemma grid_ge:
  assumes "e \<le> j" "2 powi j \<le> q"
  shows "(2::rat) powi j \<le> of_int (rne (q / 2 powi e)) * 2 powi e"
proof -
  let ?N = "2 ^ nat (j - e) :: int"
  have "of_int ?N * 2 powi e \<le> q" using assms powi_split[OF assms(1)] by simp
  then have "of_int ?N \<le> q / 2 powi e" by (simp add: pos_le_divide_eq)
  then have "?N \<le> rne (q / 2 powi e)" by (rule rne_ge)
  then have "(of_int ?N :: rat) \<le> of_int (rne (q / 2 powi e))" by (simp only: of_int_le_iff)
  then have "of_int ?N * (2::rat) powi e \<le> of_int (rne (q / 2 powi e)) * 2 powi e"
    by (rule mult_right_mono) simp
  then show ?thesis using powi_split[OF assms(1)] by simp
qed

lemma grid_le:
  assumes "e \<le> j" "q \<le> 2 powi j"
  shows "of_int (rne (q / 2 powi e)) * 2 powi e \<le> (2::rat) powi j"
proof -
  let ?N = "2 ^ nat (j - e) :: int"
  have "q \<le> of_int ?N * 2 powi e" using assms powi_split[OF assms(1)] by simp
  then have "q / 2 powi e \<le> of_int ?N" by (simp add: pos_divide_le_eq)
  then have "rne (q / 2 powi e) \<le> ?N" by (rule rne_le)
  then have "(of_int (rne (q / 2 powi e)) :: rat) \<le> of_int ?N" by (simp only: of_int_le_iff)
  then have "of_int (rne (q / 2 powi e)) * (2::rat) powi e \<le> of_int ?N * 2 powi e"
    by (rule mult_right_mono) simp
  then show ?thesis using powi_split[OF assms(1)] by simp
qed

lemma round_pos_nonneg: "0 < q \<Longrightarrow> 0 \<le> round_pos q"
proof -
  assume "0 < q"
  then have "of_int 0 \<le> q / 2 powi (max (ilog2 q - 52) (- 1074))" by simp
  then have "0 \<le> rne (q / 2 powi (max (ilog2 q - 52) (- 1074)))" by (rule rne_ge)
  then show ?thesis by (simp add: round_pos_def Let_def)
qed

lemma round_pos_ge:
  assumes "0 < q" "- 1022 \<le> k" "2 powi k \<le> q"
  shows "2 powi k \<le> round_pos q"
proof -
  define e where "e = max (ilog2 q - 52) (- 1074)"
  have r: "round_pos q = of_int (rne (q / 2 powi e)) * 2 powi e"
    by (simp add: round_pos_def e_def Let_def)
  show ?thesis
  proof (cases "e \<le> k")
    case True
    then show ?thesis using grid_ge[OF True assms(3)] r by simp
  next
    case False
    then have e: "e = ilog2 q - 52" using assms(2) by (simp add: e_def max_def split: if_splits)
    have k: "k \<le> ilog2 q" using assms by (simp add: ilog2_ge)
    have "2 powi (ilog2 q) \<le> round_pos q"
      using grid_ge[of e "ilog2 q" q] ilog2_bounds[OF assms(1)] e r by simp
    moreover have "(2::rat) powi k \<le> 2 powi (ilog2 q)" using k by (rule powi_mono)
    ultimately show ?thesis by simp
  qed
qed

lemma round_on_grid:
  assumes "0 < m" "- 1074 \<le> e'" "e' \<le> e" "ilog2 (of_int m * 2 powi e) - 52 \<le> e'"
    and "e' = max (ilog2 (of_int m * 2 powi e) - 52) (- 1074)"
  shows "round_pos (of_int m * 2 powi e) = of_int m * 2 powi e"
proof -
  let ?r = "of_int m * 2 powi e :: rat"
  have ps: "(2::rat) powi e = of_int (2 ^ nat (e - e')) * 2 powi e'"
    by (rule powi_split[OF assms(3)])
  have eq: "?r = of_int (m * 2 ^ nat (e - e')) * 2 powi e'"
    by (simp only: ps of_int_mult mult.assoc)
  have "?r / 2 powi e' = of_int (m * 2 ^ nat (e - e')) * 2 powi e' / 2 powi e'"
    by (simp only: eq[symmetric])
  also have "\<dots> = of_int (m * 2 ^ nat (e - e'))" by simp
  finally have "rne (?r / 2 powi e') = m * 2 ^ nat (e - e')" by (simp only: rne_of_int)
  then have "of_int (rne (?r / 2 powi e')) * 2 powi e' = ?r"
    by (simp only: eq[symmetric])
  then show ?thesis using assms(5) by (simp add: round_pos_def Let_def)
qed

lemma round_pos_fix:
  assumes "0 < q"
  shows "round_double (round_pos q) = round_pos q"
proof -
  define e where "e = max (ilog2 q - 52) (- 1074)"
  define m where "m = rne (q / 2 powi e)"
  have r: "round_pos q = of_int m * 2 powi e" by (simp add: round_pos_def e_def m_def Let_def)
  have e: "- 1074 \<le> e" "ilog2 q + 1 \<le> e + 53" by (simp_all add: e_def)
  have "of_int 0 \<le> q / 2 powi e" using assms by simp
  then have m0: "0 \<le> m" unfolding m_def by (rule rne_ge)
  have "q \<le> 2 powi (e + 53)"
  proof -
    have "q < 2 powi (ilog2 q + 1)" using ilog2_bounds[OF assms] by simp
    also have "\<dots> \<le> 2 powi (e + 53)" using e(2) by (rule powi_mono)
    finally show ?thesis by simp
  qed
  then have up: "of_int m * 2 powi e \<le> (2::rat) powi (e + 53)"
    using grid_le[of e "e + 53" q] by (simp add: m_def)
  show ?thesis
  proof (cases "m = 0")
    case True
    then show ?thesis using r by (simp add: round_double_def)
  next
    case False
    with m0 have m: "0 < m" by simp
    then have rpos: "0 < of_int m * (2::rat) powi e" by simp
    let ?r = "of_int m * 2 powi e :: rat"
    have "round_pos ?r = ?r"
    proof (cases "?r = 2 powi (e + 53)")
      case True
      have "ilog2 ?r = e + 53"
      proof -
        have "e + 53 \<le> ilog2 ?r" using True rpos ilog2_ge[of ?r "e + 53"] by simp
        moreover have "?r < 2 powi (e + 54)"
          using True power_int_strict_increasing[of "e + 53" "e + 54" "2::rat"] by simp
        then have "ilog2 ?r < e + 54" using rpos by (rule ilog2_lt[rotated])
        ultimately show ?thesis by simp
      qed
      then have e': "max (ilog2 ?r - 52) (- 1074) = e + 1" using e(1) by simp
      have "?r = of_int (2 ^ 52) * 2 powi (e + 1)"
        using True powi_split[of "e + 1" "e + 53"] by simp
      then have "?r / 2 powi (e + 1) = of_int (2 ^ 52)" by simp
      then have "rne (?r / 2 powi (e + 1)) = 2 ^ 52" by (simp only: rne_of_int)
      then have "of_int (rne (?r / 2 powi (e + 1))) * 2 powi (e + 1) = ?r"
        using \<open>?r = of_int (2 ^ 52) * 2 powi (e + 1)\<close> by simp
      then show ?thesis using e' by (simp add: round_pos_def Let_def)
    next
      case False
      with up have "?r < 2 powi (e + 53)" by simp
      then have "ilog2 ?r < e + 53" using rpos by (rule ilog2_lt[rotated])
      then have le: "ilog2 ?r - 52 \<le> e" by simp
      define e' where "e' = max (ilog2 ?r - 52) (- 1074)"
      have "e' \<le> e" "- 1074 \<le> e'" "ilog2 ?r - 52 \<le> e'" using le e(1) by (simp_all add: e'_def)
      then show ?thesis using round_on_grid[OF m _ _ _ e'_def] by simp
    qed
    then show ?thesis using r rpos by (simp add: round_double_def)
  qed
qed

lemma round_double_minus: "round_double (- q) = - round_double q"
  by (simp add: round_double_def)

lemma round_double_idem: "round_double (round_double q) = round_double q"
proof -
  consider "q = 0" | "0 < q" | "q < 0" by linarith
  then show ?thesis
  proof cases
    case 1 then show ?thesis by (simp add: round_double_def)
  next
    case 2 then show ?thesis using round_pos_fix[of q] by (simp add: round_double_def)
  next
    case 3
    then have "round_double (round_pos (- q)) = round_pos (- q)" using round_pos_fix[of "- q"] by simp
    then have "round_double (- round_pos (- q)) = - round_pos (- q)" by (simp only: round_double_minus)
    then show ?thesis using 3 by (simp add: round_double_def)
  qed
qed

lemma round_double_nonneg: "0 \<le> q \<Longrightarrow> 0 \<le> round_double q"
  using round_pos_nonneg[of q] by (simp add: round_double_def)

lemma round_double_ge:
  "0 < q \<Longrightarrow> - 1022 \<le> k \<Longrightarrow> 2 powi k \<le> q \<Longrightarrow> 2 powi k \<le> round_double q"
  using round_pos_ge[of q k] by (simp add: round_double_def)

text \<open>A float on the grid and inside the finite range, or an infinity or NaN.\<close>

definition is_double :: "pyfloat \<Rightarrow> bool" where
  "is_double x = (case x of Fin r \<Rightarrow> round_double r = r \<and> \<bar>r\<bar> < overflow_threshold | _ \<Rightarrow> True)"

text \<open>A float that is infinite or no less than \<open>2 powi k\<close>; a non-negative float.\<close>

definition at_least :: "int \<Rightarrow> pyfloat \<Rightarrow> bool" where
  "at_least k x = (case x of Fin r \<Rightarrow> 2 powi k \<le> r | PInf \<Rightarrow> True | _ \<Rightarrow> False)"

definition nonneg :: "pyfloat \<Rightarrow> bool" where
  "nonneg x = (case x of Fin r \<Rightarrow> 0 \<le> r | PInf \<Rightarrow> True | _ \<Rightarrow> False)"

lemma overflow_threshold_pos: "0 < overflow_threshold"
  by (simp only: overflow_threshold_def zero_less_power_int zero_less_numeral)

lemma is_double_zero: "is_double (Fin 0)"
  by (simp add: is_double_def round_double_def overflow_threshold_pos)

lemma nonneg_zero: "nonneg (Fin 0)"
  by (simp add: nonneg_def)

lemma fadd_zero_right: "is_double x \<Longrightarrow> fadd x (Fin 0) = x"
  by (cases x) (auto simp: is_double_def Let_def abs_if split: if_splits)

lemma fadd_zero_left: "is_double x \<Longrightarrow> fadd (Fin 0) x = x"
  by (cases x) (auto simp: is_double_def Let_def abs_if split: if_splits)

lemma is_double_fadd: "is_double (fadd x y)"
proof (cases x; cases y)
  fix a b assume "x = Fin a" "y = Fin b"
  then show ?thesis
    by (auto simp: is_double_def Let_def round_double_idem abs_if not_le split: if_splits)
qed (simp_all add: is_double_def)

lemma truediv_is_double: "truediv a b = Inr x \<Longrightarrow> is_double x"
  by (auto simp: truediv_def is_double_def Let_def round_double_idem not_le split: if_splits)

lemma at_least_nonneg: "at_least k x \<Longrightarrow> nonneg x"
proof (cases x)
  case (Fin r)
  assume "at_least k x"
  with Fin have "2 powi k \<le> r" by (simp add: at_least_def)
  moreover have "0 < (2::rat) powi k" by simp
  ultimately have "0 \<le> r" by linarith
  with Fin show ?thesis by (simp add: nonneg_def)
qed (simp_all add: at_least_def nonneg_def)

lemma at_least_fless: "at_least k x \<Longrightarrow> fless (Fin 0) x"
proof (cases x)
  case (Fin r)
  assume "at_least k x"
  with Fin have "2 powi k \<le> r" by (simp add: at_least_def)
  moreover have "0 < (2::rat) powi k" by simp
  ultimately have "0 < r" by linarith
  with Fin show ?thesis by simp
qed (simp_all add: at_least_def)

lemma nonneg_fadd: "nonneg x \<Longrightarrow> nonneg y \<Longrightarrow> nonneg (fadd x y)"
proof (cases x; cases y)
  fix a b assume xy: "x = Fin a" "y = Fin b" and "nonneg x" "nonneg y"
  then have "0 \<le> a + b" by (simp add: nonneg_def)
  then have "0 \<le> round_double (a + b)" by (rule round_double_nonneg)
  moreover note overflow_threshold_pos
  ultimately show ?thesis using xy by (auto simp: nonneg_def Let_def)
qed (simp_all add: nonneg_def)

lemma at_least_fadd_left:
  assumes "at_least k x" "nonneg y" "- 1022 \<le> k"
  shows "at_least k (fadd x y)"
proof (cases x; cases y)
  fix a b assume xy: "x = Fin a" "y = Fin b"
  with assms have a: "2 powi k \<le> a" and b: "0 \<le> b" by (simp_all add: at_least_def nonneg_def)
  have p: "0 < (2::rat) powi k" by simp
  from a b have le: "2 powi k \<le> a + b" by linarith
  with p have pos: "0 < a + b" by linarith
  from round_double_ge[OF pos assms(3) le] have r: "2 powi k \<le> round_double (a + b)" .
  with p have "0 < round_double (a + b)" by linarith
  with overflow_threshold_pos have "\<not> round_double (a + b) \<le> - overflow_threshold" by linarith
  with r show ?thesis using xy by (auto simp: at_least_def Let_def)
qed (use assms in \<open>simp_all add: at_least_def nonneg_def\<close>)

lemma at_least_fadd_right:
  assumes "nonneg x" "at_least k y" "- 1022 \<le> k"
  shows "at_least k (fadd x y)"
proof (cases x; cases y)
  fix a b assume xy: "x = Fin a" "y = Fin b"
  with assms have a: "0 \<le> a" and b: "2 powi k \<le> b" by (simp_all add: at_least_def nonneg_def)
  have p: "0 < (2::rat) powi k" by simp
  from a b have le: "2 powi k \<le> a + b" by linarith
  with p have pos: "0 < a + b" by linarith
  from round_double_ge[OF pos assms(3) le] have r: "2 powi k \<le> round_double (a + b)" .
  with p have "0 < round_double (a + b)" by linarith
  with overflow_threshold_pos have "\<not> round_double (a + b) \<le> - overflow_threshold" by linarith
  with r show ?thesis using xy by (auto simp: at_least_def Let_def)
qed (use assms in \<open>simp_all add: at_least_def nonneg_def\<close>)

text \<open>One wei is more than \<open>2 powi (- 60)\<close> ether.\<close>

lemma truediv_wei_at_least:
  assumes "truediv w WEI_TO_ETH = Inr x" "1 \<le> w"
  shows "at_least (- 60) x"
proof -
  let ?q = "of_int w / of_int WEI_TO_ETH :: rat"
  have W: "(of_int WEI_TO_ETH :: rat) = 10 ^ 18" by (simp add: WEI_TO_ETH_def)
  have "(1::rat) \<le> of_int w" using assms(2) by simp
  then have "1 / 10 ^ 18 \<le> ?q" unfolding W by (simp add: divide_right_mono)
  moreover have "(2::rat) powi (- 60) \<le> 1 / 10 ^ 18" by (simp add: power_int_minus_divide)
  ultimately have le: "2 powi (- 60) \<le> ?q" by linarith
  moreover have "0 < (2::rat) powi (- 60)" by simp
  ultimately have pos: "0 < ?q" by linarith
  have "2 powi (- 60) \<le> round_double ?q" by (rule round_double_ge[OF pos _ le]) simp
  moreover from assms(1) have "x = Fin (round_double ?q)"
    by (auto simp: truediv_def Let_def split: if_splits)
  ultimately show ?thesis by (simp add: at_least_def)
qed

lemma truediv_wei_nonneg:
  assumes "truediv w WEI_TO_ETH = Inr x" "0 \<le> w"
  shows "nonneg x"
proof -
  let ?q = "of_int w / of_int WEI_TO_ETH :: rat"
  have "0 \<le> ?q" using assms(2) by (simp add: WEI_TO_ETH_def)
  then have "0 \<le> round_double ?q" by (rule round_double_nonneg)
  moreover from assms(1) have "x = Fin (round_double ?q)"
    by (auto simp: truediv_def Let_def split: if_splits)
  ultimately show ?thesis by (simp add: nonneg_def)
qed

lemma py_min_eq: "ts \<noteq> [] \<Longrightarrow> py_min ts = Inr (Min (set ts))"
  by (cases ts) (simp_all add: Min.set_eq_fold[symmetric])

lemma py_max_eq: "ts \<noteq> [] \<Longrightarrow> py_max ts = Inr (Max (set ts))"
  by (cases ts) (simp_all add: Max.set_eq_fold[symmetric])

section \<open>Properties of the merge\<close>

lemma stored_get: "map_of rs a = Some st \<Longrightarrow> stored rs a = transactions st"
  by (simp add: stored_def)

lemma stored_none: "map_of rs a = None \<Longrightarrow> stored rs a = []"
  by (simp add: stored_def)

lemma map_of_None_keys: "map_of rs a = None \<longleftrightarrow> a \<notin> fst ` set rs"
  by (simp add: map_of_eq_None_iff)

lemma pool_fields_absent:
  assumes "\<not> present sel pr a k"
  shows "pool_fields ok sel pr k a = Inr (0, Fin 0, None, None, [])"
proof (cases "k \<in> set sel")
  case False
  then show ?thesis by (simp add: pool_fields_def)
next
  case True
  with assms have "a \<notin> fst ` set (get_pool pr k)" by (simp add: present_def)
  then have "map_of (get_pool pr k) a = None" by (simp add: map_of_eq_None_iff)
  with True show ?thesis by (simp add: pool_fields_def)
qed

lemma pool_fields_timestamps:
  assumes "pool_fields ok sel pr k a = Inr (c, t, f, l, ts)"
  shows "ts = pool_timestamps sel pr k a \<and> (f, l) = date_range ts"
proof (cases "k \<in> set sel")
  case False
  with assms show ?thesis by (simp add: pool_fields_def pool_timestamps_def date_range_def)
next
  case True
  show ?thesis
  proof (cases "map_of (get_pool pr k) a")
    case None
    with True assms show ?thesis
      by (simp add: pool_fields_def pool_timestamps_def date_range_def stored_none)
  next
    case (Some st)
    show ?thesis
    proof (cases "transactions st = []")
      case e: True
      with True Some assms show ?thesis
        by (auto simp: pool_fields_def pool_timestamps_def date_range_def stored_get ebind_Inr)
    next
      case ne: False
      then have n: "map timestamp (transactions st) \<noteq> []" by simp
      from True Some assms ne show ?thesis
        by (auto simp: pool_fields_def pool_timestamps_def date_range_def stored_get ebind_Inr Let_def
            py_min_eq[OF n] py_max_eq[OF n] fromtimestamp_def split: if_splits)
    qed
  qed
qed

lemma pool_fields_present:
  assumes "pool_fields ok sel pr k a = Inr (c, t, f, l, ts)"
    and "k \<in> set sel" and "map_of (get_pool pr k) a = Some st"
  shows "c = count st \<and> truediv (total_wei st) WEI_TO_ETH = Inr t"
  using assms by (auto simp: pool_fields_def ebind_Inr Let_def split: if_splits)

lemma pool_fields_supported:
  assumes "pool_fields ok sel pr k a = Inr (c, t, f, l, ts)" and "ts \<noteq> []"
  shows "ok (Min (set ts)) \<and> ok (Max (set ts))"
proof -
  from assms have k: "k \<in> set sel" by (auto simp: pool_fields_def split: if_splits)
  from assms k obtain st where st: "map_of (get_pool pr k) a = Some st"
    by (auto simp: pool_fields_def split: option.splits)
  from assms k st have ne: "transactions st \<noteq> []" and ts: "ts = map timestamp (transactions st)"
    by (auto simp: pool_fields_def ebind_Inr Let_def split: if_splits)
  then have n: "map timestamp (transactions st) \<noteq> []" by simp
  from assms(1) k st ne show ?thesis unfolding ts
    by (auto simp: pool_fields_def ebind_Inr Let_def py_min_eq[OF n] py_max_eq[OF n]
        fromtimestamp_def split: if_splits)
qed

lemma ebind_InrE:
  assumes "ebind m f = Inr y"
  obtains x where "m = Inr x" and "f x = Inr y"
  using assms by (auto simp: ebind_Inr)

lemma merge_address_Inr:
  assumes "merge_address ok sel pr a = Inr r"
  shows "pool_fields ok sel pr ''1_eth'' a =
           Inr (p1_eth_count r, p1_eth_total r, p1_eth_first_date r, p1_eth_last_date r,
                pool_timestamps sel pr ''1_eth'' a)
       \<and> pool_fields ok sel pr ''10_eth'' a =
           Inr (p10_eth_count r, p10_eth_total r, p10_eth_first_date r, p10_eth_last_date r,
                pool_timestamps sel pr ''10_eth'' a)
       \<and> pool_fields ok sel pr ''100_eth'' a =
           Inr (p100_eth_count r, p100_eth_total r, p100_eth_first_date r, p100_eth_last_date r,
                pool_timestamps sel pr ''100_eth'' a)
       \<and> grand_total r = fadd (fadd (p1_eth_total r) (p10_eth_total r)) (p100_eth_total r)
       \<and> (first_date r, last_date r) =
           date_range (pool_timestamps sel pr ''1_eth'' a @ pool_timestamps sel pr ''10_eth'' a
                       @ pool_timestamps sel pr ''100_eth'' a)"
proof -
  from assms[unfolded merge_address_def] obtain x1 where
    x1: "pool_fields ok sel pr ''1_eth'' a = Inr x1"
    and e1: "(case x1 of (c1, t1, f1, l1, ts1) \<Rightarrow>
     ebind (pool_fields ok sel pr ''10_eth'' a) (\<lambda>(c10, t10, f10, l10, ts10).
     ebind (pool_fields ok sel pr ''100_eth'' a) (\<lambda>(c100, t100, f100, l100, ts100).
       (let all_timestamps = ts1 @ ts10 @ ts100;
            total = fadd (fadd t1 t10) t100;
            r = \<lparr>p1_eth_count = c1, p1_eth_total = t1, p1_eth_first_date = f1, p1_eth_last_date = l1,
                 p10_eth_count = c10, p10_eth_total = t10, p10_eth_first_date = f10, p10_eth_last_date = l10,
                 p100_eth_count = c100, p100_eth_total = t100,
                 p100_eth_first_date = f100, p100_eth_last_date = l100,
                 grand_total = total, first_date = None, last_date = None\<rparr>
        in if all_timestamps \<noteq> [] then
             ebind (ebind (py_min all_timestamps) (fromtimestamp ok)) (\<lambda>first.
             ebind (ebind (py_max all_timestamps) (fromtimestamp ok)) (\<lambda>last.
               Inr (r\<lparr>first_date := Some first, last_date := Some last\<rparr>)))
           else Inr r)))) = Inr r"
    by (rule ebind_InrE)
  obtain c1 t1 f1 l1 ts1 where x1': "x1 = (c1, t1, f1, l1, ts1)" by (cases x1)
  from e1[unfolded x1' prod.case] obtain x10 where
    x10: "pool_fields ok sel pr ''10_eth'' a = Inr x10"
    and e10: "(case x10 of (c10, t10, f10, l10, ts10) \<Rightarrow>
     ebind (pool_fields ok sel pr ''100_eth'' a) (\<lambda>(c100, t100, f100, l100, ts100).
       (let all_timestamps = ts1 @ ts10 @ ts100;
            total = fadd (fadd t1 t10) t100;
            r = \<lparr>p1_eth_count = c1, p1_eth_total = t1, p1_eth_first_date = f1, p1_eth_last_date = l1,
                 p10_eth_count = c10, p10_eth_total = t10, p10_eth_first_date = f10, p10_eth_last_date = l10,
                 p100_eth_count = c100, p100_eth_total = t100,
                 p100_eth_first_date = f100, p100_eth_last_date = l100,
                 grand_total = total, first_date = None, last_date = None\<rparr>
        in if all_timestamps \<noteq> [] then
             ebind (ebind (py_min all_timestamps) (fromtimestamp ok)) (\<lambda>first.
             ebind (ebind (py_max all_timestamps) (fromtimestamp ok)) (\<lambda>last.
               Inr (r\<lparr>first_date := Some first, last_date := Some last\<rparr>)))
           else Inr r))) = Inr r"
    by (rule ebind_InrE)
  obtain c10 t10 f10 l10 ts10 where x10': "x10 = (c10, t10, f10, l10, ts10)" by (cases x10)
  from e10[unfolded x10' prod.case] obtain x100 where
    x100: "pool_fields ok sel pr ''100_eth'' a = Inr x100"
    and e100: "(case x100 of (c100, t100, f100, l100, ts100) \<Rightarrow>
       (let all_timestamps = ts1 @ ts10 @ ts100;
            total = fadd (fadd t1 t10) t100;
            r = \<lparr>p1_eth_count = c1, p1_eth_total = t1, p1_eth_first_date = f1, p1_eth_last_date = l1,
                 p10_eth_count = c10, p10_eth_total = t10, p10_eth_first_date = f10, p10_eth_last_date = l10,
                 p100_eth_count = c100, p100_eth_total = t100,
                 p100_eth_first_date = f100, p100_eth_last_date = l100,
                 grand_total = total, first_date = None, last_date = None\<rparr>
        in if all_timestamps \<noteq> [] then
             ebind (ebind (py_min all_timestamps) (fromtimestamp ok)) (\<lambda>first.
             ebind (ebind (py_max all_timestamps) (fromtimestamp ok)) (\<lambda>last.
               Inr (r\<lparr>first_date := Some first, last_date := Some last\<rparr>)))
           else Inr r)) = Inr r"
    by (rule ebind_InrE)
  obtain c100 t100 f100 l100 ts100 where x100': "x100 = (c100, t100, f100, l100, ts100)" by (cases x100)
  note p1 = x1[unfolded x1'] and p10 = x10[unfolded x10'] and p100 = x100[unfolded x100']
  note rest = e100[unfolded x100' prod.case]
  note t1 = pool_fields_timestamps[OF p1] and t10 = pool_fields_timestamps[OF p10]
    and t100 = pool_fields_timestamps[OF p100]
  let ?all = "ts1 @ ts10 @ ts100"
  show ?thesis
  proof (cases "?all = []")
    case True
    with rest have "r = \<lparr>p1_eth_count = c1, p1_eth_total = t1, p1_eth_first_date = f1, p1_eth_last_date = l1,
                 p10_eth_count = c10, p10_eth_total = t10, p10_eth_first_date = f10, p10_eth_last_date = l10,
                 p100_eth_count = c100, p100_eth_total = t100,
                 p100_eth_first_date = f100, p100_eth_last_date = l100,
                 grand_total = fadd (fadd t1 t10) t100, first_date = None, last_date = None\<rparr>"
      by (simp add: Let_def)
    with p1 p10 p100 t1 t10 t100 True show ?thesis by (simp add: date_range_def)
  next
    case False
    with rest obtain fd ld where
      fd: "ebind (py_min ?all) (fromtimestamp ok) = Inr fd"
      and ld: "ebind (py_max ?all) (fromtimestamp ok) = Inr ld"
      and r: "r = \<lparr>p1_eth_count = c1, p1_eth_total = t1, p1_eth_first_date = f1, p1_eth_last_date = l1,
                 p10_eth_count = c10, p10_eth_total = t10, p10_eth_first_date = f10, p10_eth_last_date = l10,
                 p100_eth_count = c100, p100_eth_total = t100,
                 p100_eth_first_date = f100, p100_eth_last_date = l100,
                 grand_total = fadd (fadd t1 t10) t100, first_date = Some fd, last_date = Some ld\<rparr>"
      by (auto simp: Let_def ebind_Inr)
    from fd ld False have "fd = FromTimestamp (Min (set ?all))" "ld = FromTimestamp (Max (set ?all))"
      by (auto simp: py_min_eq py_max_eq ebind_Inr fromtimestamp_def split: if_splits)
    with r p1 p10 p100 t1 t10 t100 False show ?thesis by (simp add: date_range_def)
  qed
qed

lemma merge_loop_Inr:
  "merge_loop ok sel pr addrs m0 = Inr m \<Longrightarrow>
     (\<forall>a\<in>set addrs. \<exists>r. merge_address ok sel pr a = Inr r \<and> m a = Some r)
     \<and> (\<forall>a. a \<notin> set addrs \<longrightarrow> m a = m0 a)"
proof (induction addrs arbitrary: m0)
  case Nil
  then show ?case by simp
next
  case (Cons a addrs)
  from Cons.prems obtain r where r: "merge_address ok sel pr a = Inr r"
    and l: "merge_loop ok sel pr addrs (m0(a \<mapsto> r)) = Inr m"
    by (auto simp: ebind_Inr)
  from Cons.IH[OF l] have 1: "\<forall>b\<in>set addrs. \<exists>r. merge_address ok sel pr b = Inr r \<and> m b = Some r"
    and 2: "\<forall>b. b \<notin> set addrs \<longrightarrow> m b = (m0(a \<mapsto> r)) b" by blast+
  have "\<exists>r. merge_address ok sel pr a = Inr r \<and> m a = Some r"
  proof (cases "a \<in> set addrs")
    case True with 1 show ?thesis by blast
  next
    case False with 2 r show ?thesis by simp
  qed
  with 1 2 show ?case by auto
qed

lemma merge_loop_total:
  "\<forall>a\<in>set addrs. \<exists>r. merge_address ok sel pr a = Inr r \<Longrightarrow>
     \<exists>m. merge_loop ok sel pr addrs m0 = Inr m"
  by (induction addrs arbitrary: m0) (auto simp: ebind_Inr)

lemma set_all_addresses:
  "set (all_addresses sel pr) = {a. \<exists>k\<in>set sel. a \<in> fst ` set (get_pool pr k)}"
  by (auto simp: all_addresses_def)

lemma merge_Inr:
  assumes "merge ok sel pr = Inr merged"
  shows "merged a = Some r \<longleftrightarrow>
      (\<exists>k\<in>set sel. a \<in> fst ` set (get_pool pr k)) \<and> merge_address ok sel pr a = Inr r"
proof -
  from merge_loop_Inr[OF assms[unfolded merge_def]]
  have 1: "\<forall>a\<in>set (all_addresses sel pr). \<exists>r. merge_address ok sel pr a = Inr r \<and> merged a = Some r"
    and 2: "\<forall>a. a \<notin> set (all_addresses sel pr) \<longrightarrow> merged a = None" by auto
  show ?thesis
  proof (cases "a \<in> set (all_addresses sel pr)")
    case True
    with 1 obtain r' where r': "merge_address ok sel pr a = Inr r'" "merged a = Some r'" by blast
    from True have "\<exists>k\<in>set sel. a \<in> fst ` set (get_pool pr k)" by (simp add: set_all_addresses)
    with r' show ?thesis by auto
  next
    case False
    then have "\<not> (\<exists>k\<in>set sel. a \<in> fst ` set (get_pool pr k))" by (simp add: set_all_addresses)
    moreover from False 2 have "merged a = None" by blast
    ultimately show ?thesis by simp
  qed
qed

text \<open>What the loop over the pools records for a pool: its dictionary, or the empty one.\<close>

definition recorded :: "(error + recipients) option \<Rightarrow> recipients" where
  "recorded outcome = (case outcome of Some (Inr rs) \<Rightarrow> rs | _ \<Rightarrow> [])"

lemma analyze_pools_Some:
  "analyze_pools http sb eb keys pr0 = Some pr \<Longrightarrow>
     (\<forall>k info. k \<in> set keys \<and> map_of TORNADO_CASH_POOLS k = Some info \<longrightarrow>
        analyze_pool http (address info) (name info) sb eb \<noteq> None
        \<and> pr k = Some (recorded (analyze_pool http (address info) (name info) sb eb)))
     \<and> (\<forall>k. k \<notin> set keys \<or> map_of TORNADO_CASH_POOLS k = None \<longrightarrow> pr k = pr0 k)"
proof (induction keys arbitrary: pr0)
  case Nil
  then show ?case by simp
next
  case (Cons key keys)
  show ?case
  proof (cases "map_of TORNADO_CASH_POOLS key")
    case None
    with Cons.prems have "analyze_pools http sb eb keys pr0 = Some pr" by simp
    from Cons.IH[OF this] None show ?thesis by auto
  next
    case (Some info)
    let ?o = "analyze_pool http (address info) (name info) sb eb"
    from Cons.prems Some have ne: "?o \<noteq> None" by (auto split: option.splits)
    from Cons.prems Some ne
    have l: "analyze_pools http sb eb keys (pr0(key \<mapsto> recorded ?o)) = Some pr"
      by (auto simp: recorded_def split: option.splits sum.splits)
    note IH = Cons.IH[OF l]
    have a: "pr key = Some (recorded ?o)"
    proof (cases "key \<in> set keys")
      case True with IH Some show ?thesis by blast
    next
      case False with IH show ?thesis by simp
    qed
    show ?thesis
    proof (intro conjI allI impI)
      fix k i assume "k \<in> set (key # keys) \<and> map_of TORNADO_CASH_POOLS k = Some i"
      then show "analyze_pool http (address i) (name i) sb eb \<noteq> None"
        using IH Some ne by (cases "k = key") auto
    next
      fix k i assume "k \<in> set (key # keys) \<and> map_of TORNADO_CASH_POOLS k = Some i"
      then show "pr k = Some (recorded (analyze_pool http (address i) (name i) sb eb))"
        using IH Some a by (cases "k = key") auto
    next
      fix k assume "k \<notin> set (key # keys) \<or> map_of TORNADO_CASH_POOLS k = None"
      then show "pr k = pr0 k" using IH Some by (cases "k = key") auto
    qed
  qed
qed

lemma analyze_pools_total:
  "\<forall>k info. k \<in> set keys \<and> map_of TORNADO_CASH_POOLS k = Some info \<longrightarrow>
        analyze_pool http (address info) (name info) sb eb \<noteq> None \<Longrightarrow>
   \<exists>pr. analyze_pools http sb eb keys pr0 = Some pr"
proof (induction keys arbitrary: pr0)
  case Nil
  then show ?case by simp
next
  case (Cons key keys)
  from Cons.prems have rest: "\<forall>k info. k \<in> set keys \<and> map_of TORNADO_CASH_POOLS k = Some info \<longrightarrow>
        analyze_pool http (address info) (name info) sb eb \<noteq> None"
    by (metis list.set_intros(2))
  show ?case
  proof (cases "map_of TORNADO_CASH_POOLS key")
    case None
    with Cons.IH[OF rest, of pr0] show ?thesis by simp
  next
    case (Some info)
    with Cons.prems obtain out where out: "analyze_pool http (address info) (name info) sb eb = Some out"
      by auto
    show ?thesis
    proof (cases out)
      case (Inl e)
      from Cons.IH[OF rest, of "pr0(key \<mapsto> [])"] obtain pr where
        "analyze_pools http sb eb keys (pr0(key \<mapsto> [])) = Some pr" ..
      with Some out Inl show ?thesis by simp
    next
      case (Inr rs)
      from Cons.IH[OF rest, of "pr0(key \<mapsto> rs)"] obtain pr where
        "analyze_pools http sb eb keys (pr0(key \<mapsto> rs)) = Some pr" ..
      with Some out Inr show ?thesis by simp
    qed
  qed
qed

lemma analyze_tornado_cash_Some:
  assumes "analyze_tornado_cash http ok start_date end_date selected = Some outcome"
    and "resolve_blocks http start_date end_date = Inr (sb, eb)"
  obtains pr where
    "analyze_pools http sb eb
       (selection selected) Map.empty = Some pr"
    and "outcome = merge ok (selection selected) pr"
  using assms unfolding analyze_tornado_cash_def Let_def
  by (auto split: option.splits)

lemma analyze_tornado_cash_Inr:
  assumes "analyze_tornado_cash http ok start_date end_date selected = Some (Inr merged)"
  obtains sb eb pr where
    "resolve_blocks http start_date end_date = Inr (sb, eb)"
    "analyze_pools http sb eb
       (selection selected) Map.empty = Some pr"
    and "merge ok (selection selected) pr = Inr merged"
  using assms unfolding analyze_tornado_cash_def Let_def
  by (auto split: option.splits sum.splits)

text \<open>An entry with at least one transaction, each of at least one wei.\<close>

definition good_stat :: "pool_stat \<Rightarrow> bool" where
  "good_stat st \<longleftrightarrow> stat_ok st \<and> transactions st \<noteq> [] \<and> (\<forall>d\<in>set (transactions st). 1 \<le> value_wei d)"

lemma analyze_pool_good:
  assumes "analyze_pool http pool_address pool_name sb eb = Some (Inr rs)"
    and "map_of rs a = Some st"
  shows "good_stat st"
proof -
  from assms(1) obtain internal_txs normal_txs where
    agg: "aggregate (lower pool_address) normal_txs internal_txs = Inr rs"
    by (rule analyze_pool_Inr)
  let ?ws = "filter (\<lambda>(k, tx). is_withdrawal pool_address tx \<and> recipient_of tx = a)
              (tagged normal_txs internal_txs)"
  have st: "transactions st = map (\<lambda>(k, tx). detail_of k tx) ?ws"
    using aggregate_stored[OF agg, of a] assms(2) by (simp add: stored_def)
  from assms(2) have "a \<in> fst ` set rs" by (metis map_of_eq_None_iff option.distinct(1))
  then obtain tx where "tx \<in> set normal_txs \<union> set internal_txs" "is_withdrawal pool_address tx"
    "recipient_of tx = a"
    unfolding aggregate_keys[OF agg] by auto
  then have "\<exists>k. (k, tx) \<in> set ?ws" by (auto simp: tagged_def)
  then have "set ?ws \<noteq> {}" by auto
  then have "?ws \<noteq> []" by (simp only: set_empty not_False_eq_True)
  then have ne: "transactions st \<noteq> []" unfolding st by simp
  have "1 \<le> value_wei d" if "d \<in> set (transactions st)" for d
  proof -
    from that obtain k tx where "d = detail_of k tx" "is_withdrawal pool_address tx"
      unfolding st by auto
    then show ?thesis by (simp add: detail_of_def is_withdrawal_def)
  qed
  moreover have "stat_ok st" using assms by (rule analyze_pool_stat_ok)
  ultimately show ?thesis using ne by (simp add: good_stat_def)
qed

lemma recorded_good:
  assumes "map_of (recorded (analyze_pool http pool_address pool_name sb eb)) a = Some st"
  shows "good_stat st"
proof (cases "analyze_pool http pool_address pool_name sb eb")
  case None
  with assms show ?thesis by (simp add: recorded_def)
next
  case (Some out)
  show ?thesis
  proof (cases out)
    case (Inl e)
    with Some assms show ?thesis by (simp add: recorded_def)
  next
    case (Inr rs)
    with Some assms have "map_of rs a = Some st" by (simp add: recorded_def)
    with Some Inr show ?thesis by (auto intro: analyze_pool_good)
  qed
qed

lemma pools_entry:
  assumes "analyze_pools http sb eb keys Map.empty = Some pr"
    and "map_of (get_pool pr k) a = Some st"
  obtains info :: pool_info where "k \<in> set keys" and "map_of TORNADO_CASH_POOLS k = Some info"
    and "get_pool pr k = recorded (analyze_pool http (address info) (name info) sb eb)"
proof -
  note P = analyze_pools_Some[OF assms(1)]
  show ?thesis
  proof (cases "k \<in> set keys \<and> map_of TORNADO_CASH_POOLS k \<noteq> None")
    case True
    then obtain info where i: "map_of TORNADO_CASH_POOLS k = Some info" by auto
    with True P have "pr k = Some (recorded (analyze_pool http (address info) (name info) sb eb))"
      by blast
    then have "get_pool pr k = recorded (analyze_pool http (address info) (name info) sb eb)"
      by (simp add: get_pool_def)
    with True i show ?thesis by (intro that[of info]) simp_all
  next
    case False
    with P have "pr k = None" by auto
    with assms(2) show ?thesis by (simp add: get_pool_def)
  qed
qed

lemma pools_good:
  assumes "analyze_pools http sb eb keys Map.empty = Some pr"
    and "map_of (get_pool pr k) a = Some st"
  shows "good_stat st"
proof -
  from assms obtain info :: pool_info where
    "get_pool pr k = recorded (analyze_pool http (address info) (name info) sb eb)"
    by (rule pools_entry)
  with assms(2) show ?thesis by (auto intro: recorded_good)
qed

lemma pools_known:
  assumes "analyze_pools http sb eb keys Map.empty = Some pr"
    and "map_of (get_pool pr k) a = Some st"
  shows "k \<in> set keys \<and> k \<in> set pool_keys"
proof -
  from assms obtain info where k: "k \<in> set keys" and "map_of TORNADO_CASH_POOLS k = Some info"
    by (rule pools_entry)
  then have "k \<in> fst ` set TORNADO_CASH_POOLS" by (metis map_of_eq_None_iff option.distinct(1))
  with k show ?thesis by (simp add: TORNADO_CASH_POOLS_def pool_keys_def)
qed

lemma good_stat_total: "good_stat st \<Longrightarrow> 1 \<le> total_wei st"
proof -
  assume g: "good_stat st"
  then obtain d ds where ds: "transactions st = d # ds" by (cases "transactions st") (auto simp: good_stat_def)
  from g have "\<forall>x\<in>set (transactions st). 1 \<le> value_wei x" by (simp add: good_stat_def)
  then have "1 \<le> value_wei d" "\<forall>x\<in>set ds. 0 \<le> value_wei x" unfolding ds by auto
  moreover have "0 \<le> sum_list (map value_wei ds)"
    using \<open>\<forall>x\<in>set ds. 0 \<le> value_wei x\<close> by (intro sum_list_nonneg) auto
  ultimately have "1 \<le> value_wei d + sum_list (map value_wei ds)" by linarith
  with g ds show ?thesis by (simp add: good_stat_def stat_ok_def)
qed

text \<open>
  Claim C2. In the dictionary \<^verbatim>\<open>analyze_pool\<close> returns, every recipient entry has a
  withdrawal count equal to the length of its transaction list and a cumulative wei value
  equal to the sum of the values of the transactions in that list.
\<close>

theorem analyze_pool_count_total:
  assumes "analyze_pool http pool_address pool_name start_block end_block = Some (Inr rs)"
    and "(r, st) \<in> set rs"
  shows "count st = int (length (transactions st))
       \<and> total_wei st = (\<Sum>d\<leftarrow>transactions st. value_wei d)"
proof -
  have "distinct (map fst rs)" using assms(1) by (rule analyze_pool_distinct)
  with assms(2) have "map_of rs r = Some st" by simp
  with assms(1) have "stat_ok st" by (rule analyze_pool_stat_ok)
  then show ?thesis by (simp add: stat_ok_def)
qed

theorem analyze_pool_count_total_witness:
  "analyze_pool sample_http ''0x910Cbd523D972eb0a6f4cAe4618aD62622b39DbF'' ''10 ETH'' 0 99999999
     = Some (Inr sample_recipients)
   \<and> (''0xa11ce'', \<lparr>count = 2, total_wei = 20000000000000000000,
         transactions = [sample_detail ''0x01'' 1700000000 ''normal'',
                         sample_detail ''internal'' 1700000500 ''internal'']\<rparr>) \<in> set sample_recipients
   \<and> (2::int) = int (length [sample_detail ''0x01'' 1700000000 ''normal'',
                         sample_detail ''internal'' 1700000500 ''internal''])
   \<and> (20000000000000000000::int) = (\<Sum>d\<leftarrow>[sample_detail ''0x01'' 1700000000 ''normal'',
                         sample_detail ''internal'' 1700000500 ''internal'']. value_wei d)"
proof -
  have m: "(''0xa11ce'', \<lparr>count = 2, total_wei = 20000000000000000000,
         transactions = [sample_detail ''0x01'' 1700000000 ''normal'',
                         sample_detail ''internal'' 1700000500 ''internal'']\<rparr>) \<in> set sample_recipients"
    by (simp add: sample_recipients_def)
  from analyze_pool_count_total[OF sample_pool_10[of 0 99999999] m] m sample_pool_10[of 0 99999999]
  show ?thesis by simp
qed

section \<open>Claims about the explorer client\<close>

text \<open>
  Claim C5. The paging loop of \<^verbatim>\<open>get_internal_transactions\<close> and
  \<^verbatim>\<open>get_normal_transactions\<close> starts at page 1 and requests page N + 1 after page N exactly
  when page N is a full page (a list of no fewer than 10,000 results). If page \<open>n\<close> is the
  first page that is not full, the loop issues the requests for pages 1 to \<open>n\<close> and no
  other, in this order, and returns the concatenation of the pages received, in order (the
  error of page \<open>n\<close> when that request fails; a reply that is not a list adds nothing). If
  every page is full, the loop never returns.
\<close>

theorem fetch_pages_paging:
  fixes http action addr sb eb
  defines "reply \<equiv> \<lambda>i. make_request http (page_request action addr sb eb i)"
  shows "(1 \<le> n \<and> (\<forall>i. 1 \<le> i \<and> i < n \<longrightarrow> full_page (reply i)) \<and> \<not> full_page (reply n) \<longrightarrow>
           fetch_pages http action addr sb eb 1 [] [] =
             Some (map (page_request action addr sb eb) [1..<Suc n],
                   page_outcome (reply n) (concat (map (\<lambda>i. page_txs (reply i)) [1..<Suc n])))
         \<and> (action = ''txlistinternal'' \<longrightarrow> get_internal_transactions http addr sb eb =
               Some (page_outcome (reply n) (concat (map (\<lambda>i. page_txs (reply i)) [1..<Suc n]))))
         \<and> (action = ''txlist'' \<longrightarrow> get_normal_transactions http addr sb eb =
               Some (page_outcome (reply n) (concat (map (\<lambda>i. page_txs (reply i)) [1..<Suc n])))))
       \<and> ((\<forall>i\<ge>1. full_page (reply i)) \<longrightarrow>
           fetch_pages http action addr sb eb 1 [] [] = None
         \<and> (action = ''txlistinternal'' \<longrightarrow> get_internal_transactions http addr sb eb = None)
         \<and> (action = ''txlist'' \<longrightarrow> get_normal_transactions http addr sb eb = None))"
proof (intro conjI impI)
  assume a: "1 \<le> n \<and> (\<forall>i. 1 \<le> i \<and> i < n \<longrightarrow> full_page (reply i)) \<and> \<not> full_page (reply n)"
  then have run: "fetch_pages http action addr sb eb 1 [] [] =
             Some (map (page_request action addr sb eb) [1..<Suc n],
                   page_outcome (reply n) (concat (map (\<lambda>i. page_txs (reply i)) [1..<Suc n])))"
    using fetch_pages_run[of 1 n http action addr sb eb "[]" "[]"] by (simp add: reply_def)
  show "fetch_pages http action addr sb eb 1 [] [] =
             Some (map (page_request action addr sb eb) [1..<Suc n],
                   page_outcome (reply n) (concat (map (\<lambda>i. page_txs (reply i)) [1..<Suc n])))"
    by (rule run)
  show "get_internal_transactions http addr sb eb =
      Some (page_outcome (reply n) (concat (map (\<lambda>i. page_txs (reply i)) [1..<Suc n])))"
    if "action = ''txlistinternal''"
    using run that by (simp add: get_internal_transactions_def)
  show "get_normal_transactions http addr sb eb =
      Some (page_outcome (reply n) (concat (map (\<lambda>i. page_txs (reply i)) [1..<Suc n])))"
    if "action = ''txlist''"
    using run that by (simp add: get_normal_transactions_def)
next
  assume a: "\<forall>i\<ge>1. full_page (reply i)"
  then have run: "fetch_pages http action addr sb eb 1 [] [] = None"
    using fetch_pages_forever[of 1 http action addr sb eb "[]" "[]"] by (simp add: reply_def)
  show "fetch_pages http action addr sb eb 1 [] [] = None" by (rule run)
  show "get_internal_transactions http addr sb eb = None" if "action = ''txlistinternal''"
    using run that by (simp add: get_internal_transactions_def)
  show "get_normal_transactions http addr sb eb = None" if "action = ''txlist''"
    using run that by (simp add: get_normal_transactions_def)
qed

theorem fetch_pages_paging_witness:
  "fetch_pages paging_http ''txlist'' ''0xfeed'' 0 99999999 1 [] [] =
     Some ([page_request ''txlist'' ''0xfeed'' 0 99999999 1, page_request ''txlist'' ''0xfeed'' 0 99999999 2],
           Inr (replicate 10000 paging_tx @ [paging_tx]))
   \<and> get_normal_transactions paging_http ''0xfeed'' 0 99999999
       = Some (Inr (replicate 10000 paging_tx @ [paging_tx]))
   \<and> fetch_pages endless_http ''txlist'' ''0xfeed'' 0 99999999 1 [] [] = None
   \<and> get_normal_transactions endless_http ''0xfeed'' 0 99999999 = None"
proof -
  let ?reply = "\<lambda>i. make_request paging_http (page_request ''txlist'' ''0xfeed'' 0 99999999 i)"
  have up: "[1..<Suc 2] = [1, 2]" by (simp add: upt_rec)
  have h1: "(1::nat) \<le> 2 \<and> (\<forall>i. 1 \<le> i \<and> i < 2 \<longrightarrow> full_page (?reply i)) \<and> \<not> full_page (?reply 2)"
    by (simp add: paging_replies full_page_def)
  have h2: "\<forall>i\<ge>1. full_page (make_request endless_http (page_request ''txlist'' ''0xfeed'' 0 99999999 i))"
    by (simp add: paging_replies full_page_def)
  have out: "page_outcome (?reply 2) (concat (map (\<lambda>i. page_txs (?reply i)) [1, 2]))
      = Inr (replicate 10000 paging_tx @ [paging_tx])"
    by (simp add: paging_replies page_outcome_def page_txs_def)
  note T1 = fetch_pages_paging[of 2 paging_http "''txlist''" "''0xfeed''" 0 99999999]
  note T2 = fetch_pages_paging[of 2 endless_http "''txlist''" "''0xfeed''" 0 99999999]
  from mp[OF conjunct1[OF T1] h1]
  have a0: "fetch_pages paging_http ''txlist'' ''0xfeed'' 0 99999999 1 [] [] =
       Some (map (page_request ''txlist'' ''0xfeed'' 0 99999999) [1..<Suc 2],
             page_outcome (?reply 2) (concat (map (\<lambda>i. page_txs (?reply i)) [1..<Suc 2])))"
    and b0: "''txlist'' = ''txlist'' \<longrightarrow> get_normal_transactions paging_http ''0xfeed'' 0 99999999 =
       Some (page_outcome (?reply 2) (concat (map (\<lambda>i. page_txs (?reply i)) [1..<Suc 2])))"
    by blast+
  from a0 have a: "fetch_pages paging_http ''txlist'' ''0xfeed'' 0 99999999 1 [] [] =
     Some ([page_request ''txlist'' ''0xfeed'' 0 99999999 1, page_request ''txlist'' ''0xfeed'' 0 99999999 2],
           Inr (replicate 10000 paging_tx @ [paging_tx]))"
    unfolding up out by (simp only: list.map)
  from b0 have b: "get_normal_transactions paging_http ''0xfeed'' 0 99999999
       = Some (Inr (replicate 10000 paging_tx @ [paging_tx]))"
    unfolding up out by (simp only: simp_thms)
  from mp[OF conjunct2[OF T2] h2]
  have c: "fetch_pages endless_http ''txlist'' ''0xfeed'' 0 99999999 1 [] [] = None"
    and d: "get_normal_transactions endless_http ''0xfeed'' 0 99999999 = None"
    by blast+
  from a b c d show ?thesis by (intro conjI)
qed

end
